theory Spec2Isabelle
  imports Main
begin

section \<open>Values shared by the scraper and the notifier\<close>

text \<open>
  \<^verbatim>\<open>try: ... except: ...\<close> around a call into the browser or the parser: the call
  either raises or returns a value.
\<close>

datatype 'a attempt = Raises | Returns 'a

text \<open>
  A job is the dictionary built by \<^verbatim>\<open>parse_job_element_from_html\<close>. A key that is
  absent or holds \<^verbatim>\<open>None\<close> is \<open>None\<close> here: the source reads these keys with
  \<^verbatim>\<open>get\<close> and tests the result for truth, which does not tell the two apart. The
  title is read with a default (\<^verbatim>\<open>job.get('title', 'N/A')\<close>), which does: for it
  \<open>None\<close> is an absent key and \<open>Some None\<close> a key that holds \<^verbatim>\<open>None\<close>.
\<close>

record job =
  job_id :: "string option"
  client_name :: "string option"
  title :: "string option option"
  url :: "string option"
  budget :: "string option"
  client_country :: "string option"
  client_payment_verified :: "bool option"

text \<open>Python truth of an optional string: \<^verbatim>\<open>None\<close> and \<^verbatim>\<open>''\<close> are false.\<close>

definition truthy :: "string option \<Rightarrow> bool" where
  "truthy v = (case v of None \<Rightarrow> False | Some s \<Rightarrow> s \<noteq> [])"

text \<open>\<^verbatim>\<open>v or ''\<close> for an optional string.\<close>

definition or_empty :: "string option \<Rightarrow> string" where
  "or_empty v = (if truthy v then the v else [])"

text \<open>How an f-string prints an optional string: \<^verbatim>\<open>None\<close> prints as the word None.\<close>

definition fmt_opt :: "string option \<Rightarrow> string" where
  "fmt_opt v = (case v of None \<Rightarrow> ''None'' | Some s \<Rightarrow> s)"

section \<open>The scraper (src/scrapers/workana\_scraper.py)\<close>

text \<open>
  The constants of \<^verbatim>\<open>config.settings\<close> that decide control flow are parameters.
\<close>

record settings =
  STOP_ON_KNOWN_JOB :: bool
  MAX_PAGES :: "int option"
  BASE_URL :: string

text \<open>
  What the browser shows after a page has loaded, as far as the scraper reads it.
  \<open>query_pagination\<close> is \<^verbatim>\<open>page.query_selector(SELECTORS['pagination'])\<close>: it raises,
  finds no element, or finds an element, which is given by what
  \<^verbatim>\<open>query_selector_all(SELECTORS['pagination_pages'])\<close> does on it: it raises or returns
  the links, each given by what \<^verbatim>\<open>inner_text()\<close> does on it.
  \<open>query_job_items\<close> is \<^verbatim>\<open>page.query_selector_all(SELECTORS['job_item'])\<close>, each element
  given by what reading its \<^verbatim>\<open>outerHTML\<close> does.
\<close>

record page_dom =
  query_pagination :: "string attempt list attempt option attempt"
  query_job_items :: "string attempt list attempt"

text \<open>What \<^verbatim>\<open>page.goto\<close> and \<^verbatim>\<open>wait_for_selector\<close> do for one page of the listing.\<close>

datatype fetch_outcome = FetchTimeout | FetchError | Loaded page_dom

text \<open>
  \<^verbatim>\<open>load_page\<close>: both kinds of failure are caught and give \<^verbatim>\<open>False\<close> (here \<open>None\<close>);
  on success the browser shows the page. The listing is indexed by page number:
  \<^verbatim>\<open>build_jobs_url\<close> is a function of the page number once category and language are fixed.
\<close>

definition load_page :: "(int \<Rightarrow> fetch_outcome) \<Rightarrow> int \<Rightarrow> page_dom option" where
  "load_page site page =
     (case site page of
        Loaded pg \<Rightarrow> Some pg
      | FetchTimeout \<Rightarrow> None
      | FetchError \<Rightarrow> None)"

subsection \<open>get\_job\_elements\<close>

fun job_htmls_loop :: "string attempt list \<Rightarrow> string list \<Rightarrow> string list" where
  "job_htmls_loop [] job_htmls = job_htmls"
| "job_htmls_loop (element # rest) job_htmls =
     (case element of
        Returns html \<Rightarrow> job_htmls_loop rest (job_htmls @ [html])
      | Raises \<Rightarrow> job_htmls_loop rest job_htmls)"

definition get_job_elements :: "page_dom \<Rightarrow> string list" where
  "get_job_elements pg =
     (case query_job_items pg of
        Returns job_elements \<Rightarrow> job_htmls_loop job_elements []
      | Raises \<Rightarrow> [])"

subsection \<open>get\_total\_pages\<close>

text \<open>
  \<^verbatim>\<open>str.strip\<close>, \<^verbatim>\<open>str.isdigit\<close> and \<^verbatim>\<open>int\<close> are Python's own and work on Unicode
  text: there are spaces and digits outside ASCII, \<^verbatim>\<open>int\<close> raises on some texts that
  \<^verbatim>\<open>isdigit\<close> accepts, and on a text of too many digits. They are parameters of the
  model.
\<close>

record text_ops =
  strip :: "string \<Rightarrow> string"
  isdigit :: "string \<Rightarrow> bool"
  int_of :: "string \<Rightarrow> int attempt"

text \<open>
  The loop of lines 152 to 158: a link whose text cannot be read, is not numeric or
  cannot be converted is skipped.
\<close>

fun page_numbers_loop :: "text_ops \<Rightarrow> string attempt list \<Rightarrow> int list \<Rightarrow> int list" where
  "page_numbers_loop py [] page_numbers = page_numbers"
| "page_numbers_loop py (link # rest) page_numbers =
     (case link of
        Returns inner_text \<Rightarrow>
          (let text = strip py inner_text in
           if isdigit py text then
             (case int_of py text of
                Returns n \<Rightarrow> page_numbers_loop py rest (page_numbers @ [n])
              | Raises \<Rightarrow> page_numbers_loop py rest page_numbers)
           else page_numbers_loop py rest page_numbers)
      | Raises \<Rightarrow> page_numbers_loop py rest page_numbers)"

text \<open>\<^verbatim>\<open>max\<close> of a list that is not empty.\<close>

fun max_list :: "int list \<Rightarrow> int" where
  "max_list [] = 0"
| "max_list (x # xs) = foldl max x xs"

definition get_total_pages :: "text_ops \<Rightarrow> page_dom \<Rightarrow> int" where
  "get_total_pages py pg =
     (case query_pagination pg of
        Raises \<Rightarrow> 1
      | Returns None \<Rightarrow> 1
      | Returns (Some pagination) \<Rightarrow>
          (case pagination of
             Raises \<Rightarrow> 1
           | Returns page_links \<Rightarrow>
               if page_links = [] then 1
               else (let page_numbers = page_numbers_loop py page_links []
                     in if page_numbers \<noteq> [] then max_list page_numbers else 1)))"

subsection \<open>scrape\_page\<close>

text \<open>The composite key of line 199, an f-string over the id and the client name.\<close>

definition job_key :: "job \<Rightarrow> string" where
  "job_key job_data = fmt_opt (job_id job_data) @ ''|'' @ or_empty (client_name job_data)"

text \<open>
  The loop over the fragments of one page. \<open>parse\<close> is
  \<^verbatim>\<open>parse_job_element_from_html\<close> at the scraper's base URL; an exception it raises is
  caught per fragment. The result is \<^verbatim>\<open>(jobs, should_stop)\<close>.
\<close>

fun scrape_page_loop ::
  "settings \<Rightarrow> (string \<Rightarrow> job attempt) \<Rightarrow> string set \<Rightarrow> string list \<Rightarrow> job list \<Rightarrow> job list \<times> bool"
where
  "scrape_page_loop cfg parse existing_job_ids [] jobs = (jobs, False)"
| "scrape_page_loop cfg parse existing_job_ids (job_html # rest) jobs =
     (case parse job_html of
        Raises \<Rightarrow> scrape_page_loop cfg parse existing_job_ids rest jobs
      | Returns job_data \<Rightarrow>
          if \<not> truthy (job_id job_data)
          then scrape_page_loop cfg parse existing_job_ids rest jobs
          else if STOP_ON_KNOWN_JOB cfg \<and> job_key job_data \<in> existing_job_ids
          then (jobs, True)
          else scrape_page_loop cfg parse existing_job_ids rest (jobs @ [job_data]))"

definition scrape_page ::
  "settings \<Rightarrow> (string \<Rightarrow> job attempt) \<Rightarrow> string set \<Rightarrow> page_dom \<Rightarrow> job list \<times> bool"
where
  "scrape_page cfg parse existing_job_ids pg =
     (let job_elements = get_job_elements pg
      in if job_elements = [] then ([], False)
         else scrape_page_loop cfg parse existing_job_ids job_elements [])"

subsection \<open>scrape\<close>

text \<open>
  What a run does besides returning: the calls it makes on the browser, in order.
  \<open>LoadPage p ok\<close> is a call of \<^verbatim>\<open>load_page\<close> for page \<open>p\<close> and its result,
  \<open>GetTotalPages n\<close> a call of \<^verbatim>\<open>get_total_pages\<close> and its result, \<open>ScrapePage p\<close> a call
  of \<^verbatim>\<open>scrape_page\<close> while page \<open>p\<close> is shown, \<open>Delay\<close> the sleep between two pages.
\<close>

datatype event = LoadPage int bool | GetTotalPages int | ScrapePage int | Delay

text \<open>
  A finished run: \<open>returned\<close> is the value \<^verbatim>\<open>scrape\<close> returns (\<^verbatim>\<open>all_jobs\<close>);
  \<open>events\<close> and \<open>should_stop\<close> (the local variable of that name when the function
  returns; false when it was never assigned) are not part of the returned value.

  The body of \<^verbatim>\<open>scrape\<close> stands in a \<^verbatim>\<open>try\<close> whose handler prints the exception and
  falls through to \<^verbatim>\<open>return all_jobs\<close>. Every call in it that talks to the browser or
  the parser catches its own exceptions (\<^verbatim>\<open>load_page\<close>, \<^verbatim>\<open>get_total_pages\<close>,
  \<^verbatim>\<open>scroll_page\<close>, \<^verbatim>\<open>get_job_elements\<close>, and \<^verbatim>\<open>scrape_page\<close> around the parser), so
  each of them is a branch of the functions above and the loop below returns on every
  path. \<^verbatim>\<open>scroll_page\<close> returns nothing and is left out: a page is given as what the
  scraper reads from it.
\<close>

record run =
  returned :: "job list"
  events :: "event list"
  should_stop :: bool

function scrape_loop ::
  "settings \<Rightarrow> (string \<Rightarrow> job attempt) \<Rightarrow> string set \<Rightarrow> (int \<Rightarrow> fetch_outcome) \<Rightarrow> int \<Rightarrow>
   int \<Rightarrow> page_dom \<Rightarrow> job list \<Rightarrow> event list \<Rightarrow> run"
where
  "scrape_loop cfg parse existing_job_ids site total_pages page pg all_jobs evs =
     (if page \<le> total_pages then
        (case scrape_page cfg parse existing_job_ids pg of
           (jobs, stop) \<Rightarrow>
             if stop
             then \<lparr>returned = all_jobs @ jobs, events = evs @ [ScrapePage page], should_stop = True\<rparr>
             else if page + 1 > total_pages
             then \<lparr>returned = all_jobs @ jobs, events = evs @ [ScrapePage page], should_stop = False\<rparr>
             else
               (case load_page site (page + 1) of
                  None \<Rightarrow>
                    \<lparr>returned = all_jobs @ jobs,
                     events = evs @ [ScrapePage page, Delay, LoadPage (page + 1) False],
                     should_stop = False\<rparr>
                | Some pg' \<Rightarrow>
                    scrape_loop cfg parse existing_job_ids site total_pages (page + 1) pg'
                      (all_jobs @ jobs)
                      (evs @ [ScrapePage page, Delay, LoadPage (page + 1) True])))
      else \<lparr>returned = all_jobs, events = evs, should_stop = False\<rparr>)"
  by pat_completeness auto
termination
  by (relation "measure (\<lambda>(cfg, parse, existing_job_ids, site, total_pages, page, pg, all_jobs, evs).
        nat (total_pages + 1 - page))") auto

text \<open>The defaults of lines 221 to 225.\<close>

definition default_ids :: "string set option \<Rightarrow> string set" where
  "default_ids existing_job_ids = (case existing_job_ids of None \<Rightarrow> {} | Some s \<Rightarrow> s)"

definition default_max_pages :: "settings \<Rightarrow> int option \<Rightarrow> int option" where
  "default_max_pages cfg max_pages = (case max_pages of None \<Rightarrow> MAX_PAGES cfg | Some m \<Rightarrow> Some m)"

text \<open>
  \<^verbatim>\<open>if max_pages: total_pages = min(total_pages, max_pages)\<close>: a limit that is absent
  or 0 is false in Python and leaves the total as it is.
\<close>

definition clamp_total :: "settings \<Rightarrow> int option \<Rightarrow> int \<Rightarrow> int" where
  "clamp_total cfg max_pages total_pages =
     (case default_max_pages cfg max_pages of
        None \<Rightarrow> total_pages
      | Some m \<Rightarrow> if m \<noteq> 0 then min total_pages m else total_pages)"

definition scrape_run ::
  "text_ops \<Rightarrow> settings \<Rightarrow> (string \<Rightarrow> job attempt) \<Rightarrow> (int \<Rightarrow> fetch_outcome) \<Rightarrow> string set option \<Rightarrow>
   int option \<Rightarrow> run"
where
  "scrape_run py cfg parse site existing_job_ids max_pages =
     (let existing_job_ids = default_ids existing_job_ids
      in case load_page site 1 of
           None \<Rightarrow> \<lparr>returned = [], events = [LoadPage 1 False], should_stop = False\<rparr>
         | Some pg \<Rightarrow>
             (let total_pages = get_total_pages py pg
              in scrape_loop cfg parse existing_job_ids site
                   (clamp_total cfg max_pages total_pages) 1 pg []
                   [LoadPage 1 True, GetTotalPages total_pages]))"

definition scrape ::
  "text_ops \<Rightarrow> settings \<Rightarrow> (string \<Rightarrow> job attempt) \<Rightarrow> (int \<Rightarrow> fetch_outcome) \<Rightarrow> string set option \<Rightarrow>
   int option \<Rightarrow> job list"
where
  "scrape py cfg parse site existing_job_ids max_pages =
     returned (scrape_run py cfg parse site existing_job_ids max_pages)"

section \<open>The notifier (src/utils/slack\_notifier.py)\<close>

text \<open>
  Strings are byte strings in UTF-8; the symbols of the messages that are outside ASCII
  are named here.
\<close>

definition party_popper :: string where
  "party_popper = [CHR 0xF0, CHR 0x9F, CHR 0x8E, CHR 0x89]"

definition check_mark :: string where
  "check_mark = [CHR 0xE2, CHR 0x9C, CHR 0x85]"

definition cross_mark :: string where
  "cross_mark = [CHR 0xE2, CHR 0x9D, CHR 0x8C]"

definition bullet :: string where
  "bullet = [CHR 0xE2, CHR 0x80, CHR 0xA2]"

definition box_line :: string where
  "box_line = [CHR 0xE2, CHR 0x94, CHR 0x80]"

text \<open>\<^verbatim>\<open>str\<close> of a length and of an integer.\<close>

fun str_nat :: "nat \<Rightarrow> string" where
  "str_nat n =
     (if n < 10 then [char_of (48 + n)]
      else str_nat (n div 10) @ [char_of (48 + n mod 10)])"

declare str_nat.simps [simp del]

definition str_int :: "int \<Rightarrow> string" where
  "str_int i = (if i < 0 then ''-'' @ str_nat (nat (- i)) else str_nat (nat i))"

definition startswith :: "string \<Rightarrow> string \<Rightarrow> bool" where
  "startswith s p = (take (length p) s = p)"

text \<open>\<^verbatim>\<open>"\n".join(parts)\<close>\<close>

fun join_lines :: "string list \<Rightarrow> string" where
  "join_lines [] = []"
| "join_lines [part] = part"
| "join_lines (part # rest) = part @ [CHR 0x0A] @ join_lines rest"

text \<open>
  The translator of \<^verbatim>\<open>utils.translator\<close>, as far as the notifier calls it:
  \<^verbatim>\<open>translate_text\<close>, given a text or \<^verbatim>\<open>None\<close>, raises, or returns a text or nothing.
\<close>

record translator =
  is_available :: bool
  translate_text :: "string option \<Rightarrow> string option attempt"

record notifier =
  webhook_url :: "string option"
  translator :: "translator option"

text \<open>
  A Slack block, by its \<^verbatim>\<open>type\<close>: a header with plain text, a section with mrkdwn
  text, a context with one mrkdwn element.
\<close>

datatype block = Header string | Section string | Context string

record payload =
  payload_text :: string
  payload_blocks :: "block list option"

text \<open>What \<^verbatim>\<open>requests.post\<close> does: a response with a status code, or an exception.\<close>

datatype response = Status int | Timeout | ConnectionError | RequestException | OtherException

text \<open>
  \<^verbatim>\<open>send_message\<close> returns its boolean; the second component lists the requests
  it posted (URL and payload).
\<close>

definition send_message ::
  "notifier \<Rightarrow> (string \<Rightarrow> payload \<Rightarrow> response) \<Rightarrow> string \<Rightarrow> block list option \<Rightarrow>
   bool \<times> (string \<times> payload) list"
where
  "send_message nt post text blocks =
     (if \<not> truthy (webhook_url nt) then (False, [])
      else if \<not> startswith (the (webhook_url nt)) ''https://hooks.slack.com'' then (False, [])
      else
        (let pl = \<lparr>payload_text = text,
                   payload_blocks =
                     (case blocks of None \<Rightarrow> None
                      | Some bs \<Rightarrow> if bs \<noteq> [] then Some bs else None)\<rparr>;
             request = (the (webhook_url nt), pl)
         in case post (the (webhook_url nt)) pl of
              Status status_code \<Rightarrow> (status_code = 200, [request])
            | Timeout \<Rightarrow> (False, [request])
            | ConnectionError \<Rightarrow> (False, [request])
            | RequestException \<Rightarrow> (False, [request])
            | OtherException \<Rightarrow> (False, [request])))"

definition translated_title :: "notifier \<Rightarrow> string option \<Rightarrow> string option" where
  "translated_title nt original_title =
     (case translator nt of
        None \<Rightarrow> original_title
      | Some tr \<Rightarrow>
          if is_available tr then
            (case translate_text tr original_title of
               Returns translated \<Rightarrow> if truthy translated then translated else original_title
             | Raises \<Rightarrow> original_title)
          else original_title)"

text \<open>\<^verbatim>\<open>format_job_block\<close>; the index is a parameter the source does not use.\<close>

definition format_job_block :: "settings \<Rightarrow> notifier \<Rightarrow> job \<Rightarrow> nat \<Rightarrow> block" where
  "format_job_block cfg nt job_data index =
     (let original_title = (case title job_data of None \<Rightarrow> Some ''N/A'' | Some t \<Rightarrow> t);
          shown_title = translated_title nt original_title;
          link = (case url job_data of None \<Rightarrow> [] | Some u \<Rightarrow> u);
          link = (if link \<noteq> [] \<and> \<not> startswith link ''http'' then BASE_URL cfg @ link else link);
          title_text = (if link \<noteq> [] then ''*<'' @ link @ ''|'' @ fmt_opt shown_title @ ''>*''
                        else ''*'' @ fmt_opt shown_title @ ''*'');
          text_parts = [title_text];
          text_parts = (if truthy (client_country job_data)
                        then text_parts @ [''Country: '' @ the (client_country job_data)]
                        else text_parts);
          text_parts = (if client_payment_verified job_data = Some True
                        then text_parts @ [''Payment: '' @ check_mark @ '' Verified'']
                        else text_parts @ [''Payment: '' @ cross_mark @ '' Not Verified'']);
          text_parts = (if truthy (budget job_data)
                        then text_parts @ [''Budget: '' @ the (budget job_data)]
                        else text_parts)
      in Section (join_lines text_parts))"

definition divider :: block where
  "divider = Section (''*'' @ concat (replicate 35 box_line) @ ''*'')"

text \<open>
  The loop of lines 407 to 417 over \<^verbatim>\<open>enumerate(jobs_to_send, 1)\<close>: \<open>n\<close> is
  \<^verbatim>\<open>len(jobs_to_send)\<close>, \<open>i\<close> the running index.
\<close>

fun job_blocks_loop ::
  "settings \<Rightarrow> notifier \<Rightarrow> nat \<Rightarrow> nat \<Rightarrow> job list \<Rightarrow> block list \<Rightarrow> block list"
where
  "job_blocks_loop cfg nt n i [] blocks = blocks"
| "job_blocks_loop cfg nt n i (job_data # rest) blocks =
     (let blocks = blocks @ [format_job_block cfg nt job_data i];
          blocks = (if i < n then blocks @ [divider] else blocks)
      in job_blocks_loop cfg nt n (i + 1) rest blocks)"

definition plural :: "nat \<Rightarrow> string" where
  "plural n = (if n \<noteq> 1 then ''s'' else [])"

definition more_jobs_note :: "nat \<Rightarrow> block" where
  "more_jobs_note n =
     Section (''*... and '' @ str_nat n @ '' more new jobs!* Check the database for full list.'')"

text \<open>The blocks \<^verbatim>\<open>send_new_jobs\<close> builds (lines 376 to 438) for a list that is not empty.\<close>

definition message_blocks :: "settings \<Rightarrow> notifier \<Rightarrow> job list \<Rightarrow> int option \<Rightarrow> block list" where
  "message_blocks cfg nt new_jobs total_scraped =
     (let header_text = party_popper @ '' *'' @ str_nat (length new_jobs) @ '' New Job''
                          @ plural (length new_jobs) @ '' Found on Workana!*'';
          header_text = (case total_scraped of
                           None \<Rightarrow> header_text
                         | Some t \<Rightarrow>
                             if t \<noteq> 0
                             then header_text @ [CHR 0x0A] @ ''(Scraped '' @ str_int t @ '' jobs total)''
                             else header_text);
          blocks = [Header (party_popper @ '' '' @ str_nat (length new_jobs) @ '' New Job''
                              @ plural (length new_jobs) @ '' Found!''),
                    Section header_text,
                    divider];
          jobs_to_send = take 10 new_jobs;
          blocks = job_blocks_loop cfg nt (length jobs_to_send) 1 jobs_to_send blocks;
          blocks = (if length new_jobs > 10
                    then blocks @ [more_jobs_note (length new_jobs - 10)]
                    else blocks)
      in blocks @ [Context (''Scraped from Workana.com '' @ bullet @ '' Total new jobs: ''
                              @ str_nat (length new_jobs))])"

definition send_new_jobs ::
  "settings \<Rightarrow> notifier \<Rightarrow> (string \<Rightarrow> payload \<Rightarrow> response) \<Rightarrow> job list \<Rightarrow> int option \<Rightarrow>
   bool \<times> (string \<times> payload) list"
where
  "send_new_jobs cfg nt post new_jobs total_scraped =
     (if new_jobs = [] then (True, [])
      else if \<not> truthy (webhook_url nt) then (False, [])
      else send_message nt post
             (''Found '' @ str_nat (length new_jobs) @ '' new job(s) on Workana'')
             (Some (message_blocks cfg nt new_jobs total_scraped)))"

section \<open>Notions the properties are stated with\<close>

text \<open>
  The records one page contributes when nothing stops the loop: what the parser returns
  for each fragment, in page order, without the fragments on which it raises and
  without the records whose id is missing or empty.
\<close>

definition usable_jobs :: "(string \<Rightarrow> job attempt) \<Rightarrow> string list \<Rightarrow> job list" where
  "usable_jobs parse htmls =
     concat (map (\<lambda>h. case parse h of
                         Returns j \<Rightarrow> if truthy (job_id j) then [j] else []
                       | Raises \<Rightarrow> []) htmls)"

text \<open>
  The numbers the links of a pagination contribute, in order: the number of each link
  whose text can be read, is numeric once stripped and can be converted.
\<close>

definition link_numbers :: "text_ops \<Rightarrow> string attempt list \<Rightarrow> int list" where
  "link_numbers py links =
     concat (map (\<lambda>link. case link of
                            Returns t \<Rightarrow>
                              if isdigit py (strip py t)
                              then (case int_of py (strip py t) of
                                      Returns n \<Rightarrow> [n]
                                    | Raises \<Rightarrow> [])
                              else []
                          | Raises \<Rightarrow> []) links)"

text \<open>The pages a run asked the browser to load, and the pages it scraped, in order.\<close>

fun fetched_page :: "event \<Rightarrow> int list" where
  "fetched_page (LoadPage p ok) = [p]"
| "fetched_page (GetTotalPages n) = []"
| "fetched_page (ScrapePage p) = []"
| "fetched_page Delay = []"

definition pages_fetched :: "event list \<Rightarrow> int list" where
  "pages_fetched evs = concat (map fetched_page evs)"

fun scraped_page :: "event \<Rightarrow> int list" where
  "scraped_page (LoadPage p ok) = []"
| "scraped_page (GetTotalPages n) = []"
| "scraped_page (ScrapePage p) = [p]"
| "scraped_page Delay = []"

definition pages_scraped :: "event list \<Rightarrow> int list" where
  "pages_scraped evs = concat (map scraped_page evs)"

text \<open>The values the calls of \<^verbatim>\<open>get_total_pages\<close> returned, one per call.\<close>

fun total_read :: "event \<Rightarrow> int list" where
  "total_read (LoadPage p ok) = []"
| "total_read (GetTotalPages n) = [n]"
| "total_read (ScrapePage p) = []"
| "total_read Delay = []"

definition totals_read :: "event list \<Rightarrow> int list" where
  "totals_read evs = concat (map total_read evs)"

text \<open>
  A text reads as a number when it is a decimal numeral of that number: not empty, of
  the digits 0 to 9 only, with the number as its value.
\<close>

definition reads_as :: "string \<Rightarrow> nat \<Rightarrow> bool" where
  "reads_as s n =
     (s \<noteq> [] \<and> list_all (\<lambda>c. c \<in> set ''0123456789'') s
      \<and> foldl (\<lambda>a c. 10 * a + (of_char c - 48)) 0 s = n)"

text \<open>What the loop appends to the log for a page that is followed by a successful load.\<close>

definition page_events :: "int \<Rightarrow> event list" where
  "page_events q = [ScrapePage q, Delay, LoadPage (q + 1) True]"

section \<open>Example inputs\<close>

text \<open>
  Inputs for the examples below. The example parser reads a fragment \<^verbatim>\<open>id|client\<close> as
  the record with that id and client name, and raises on a fragment without a bar.
\<close>

text \<open>
  The three text operations on ASCII text, for the examples: on a text of ASCII
  characters they are Python's, with the limit of 4300 digits that \<^verbatim>\<open>int\<close> has by
  default. They say nothing about a text with a character outside ASCII.
\<close>

definition ascii_space :: "char \<Rightarrow> bool" where
  "ascii_space c = (c \<in> set [CHR 0x20, CHR 0x09, CHR 0x0A, CHR 0x0B, CHR 0x0C, CHR 0x0D,
                              CHR 0x1C, CHR 0x1D, CHR 0x1E, CHR 0x1F])"

definition ascii_strip :: "string \<Rightarrow> string" where
  "ascii_strip s = rev (dropWhile ascii_space (rev (dropWhile ascii_space s)))"

definition ascii_digit :: "char \<Rightarrow> bool" where
  "ascii_digit c = (c \<in> set ''0123456789'')"

definition ascii_isdigit :: "string \<Rightarrow> bool" where
  "ascii_isdigit s = (s \<noteq> [] \<and> list_all ascii_digit s)"

definition ascii_int :: "string \<Rightarrow> int attempt" where
  "ascii_int s =
     (if 4300 < length s then Raises
      else Returns (foldl (\<lambda>n c. 10 * n + (int (of_char c) - 48)) 0 s))"

definition ascii_text :: text_ops where
  "ascii_text = \<lparr>strip = ascii_strip, isdigit = ascii_isdigit, int_of = ascii_int\<rparr>"

definition example_cfg :: "bool \<Rightarrow> settings" where
  "example_cfg stop =
     \<lparr>STOP_ON_KNOWN_JOB = stop, MAX_PAGES = None, BASE_URL = ''https://www.workana.com''\<rparr>"

definition example_job :: "string \<Rightarrow> string \<Rightarrow> job" where
  "example_job i c =
     \<lparr>job_id = Some i, client_name = Some c, title = None, url = None, budget = None,
      client_country = None, client_payment_verified = None\<rparr>"

definition example_parse :: "string \<Rightarrow> job attempt" where
  "example_parse h =
     (if CHR ''|'' \<in> set h
      then Returns (example_job (takeWhile (\<lambda>c. c \<noteq> CHR ''|'') h)
                                (tl (dropWhile (\<lambda>c. c \<noteq> CHR ''|'') h)))
      else Raises)"

definition example_page :: "string list \<Rightarrow> string list \<Rightarrow> page_dom" where
  "example_page links htmls =
     \<lparr>query_pagination = Returns (Some (Returns (map Returns links))),
      query_job_items = Returns (map Returns htmls)\<rparr>"

definition example_site :: "page_dom list \<Rightarrow> int \<Rightarrow> fetch_outcome" where
  "example_site pages q =
     (if 1 \<le> q \<and> q \<le> int (length pages) then Loaded (pages ! nat (q - 1)) else FetchError)"

text \<open>
  A job with a title and nothing else to show, and the block \<^verbatim>\<open>format_job_block\<close>
  makes of it when there is no translator.
\<close>

definition example_titled :: "string \<Rightarrow> job" where
  "example_titled t = (example_job t ''Acme'')\<lparr>title := Some (Some t)\<rparr>"

definition example_block :: "string \<Rightarrow> block" where
  "example_block t =
     Section (''*'' @ t @ ''*'' @ [CHR 0x0A] @ ''Payment: '' @ cross_mark @ '' Not Verified'')"

definition example_notifier :: notifier where
  "example_notifier =
     \<lparr>webhook_url = Some ''https://hooks.slack.com/services/T0/B0/x'', translator = None\<rparr>"

section \<open>One page\<close>

lemma usable_jobs_simps [simp]:
  "usable_jobs parse [] = []"
  "usable_jobs parse (h # hs) =
     (case parse h of Returns j \<Rightarrow> if truthy (job_id j) then [j] else [] | Raises \<Rightarrow> [])
     @ usable_jobs parse hs"
  by (simp_all add: usable_jobs_def)

lemma usable_jobs_append [simp]:
  "usable_jobs parse (xs @ ys) = usable_jobs parse xs @ usable_jobs parse ys"
  by (simp add: usable_jobs_def)

lemma usable_jobs_truthy: "j \<in> set (usable_jobs parse htmls) \<Longrightarrow> truthy (job_id j)"
  by (induction htmls) (auto split: attempt.splits if_splits)

lemma scrape_page_loop_stop_on:
  "STOP_ON_KNOWN_JOB cfg \<Longrightarrow>
   scrape_page_loop cfg parse K htmls jobs =
     (jobs @ takeWhile (\<lambda>j. job_key j \<notin> K) (usable_jobs parse htmls),
      \<exists>j \<in> set (usable_jobs parse htmls). job_key j \<in> K)"
  by (induction htmls arbitrary: jobs) (auto split: attempt.splits)

lemma scrape_page_loop_stop_off:
  "\<not> STOP_ON_KNOWN_JOB cfg \<Longrightarrow>
   scrape_page_loop cfg parse K htmls jobs = (jobs @ usable_jobs parse htmls, False)"
  by (induction htmls arbitrary: jobs) (auto split: attempt.splits)

lemma scrape_page_stop_on:
  "STOP_ON_KNOWN_JOB cfg \<Longrightarrow>
   scrape_page cfg parse K pg =
     (takeWhile (\<lambda>j. job_key j \<notin> K) (usable_jobs parse (get_job_elements pg)),
      \<exists>j \<in> set (usable_jobs parse (get_job_elements pg)). job_key j \<in> K)"
  by (simp add: scrape_page_def Let_def scrape_page_loop_stop_on)

lemma scrape_page_stop_off:
  "\<not> STOP_ON_KNOWN_JOB cfg \<Longrightarrow>
   scrape_page cfg parse K pg = (usable_jobs parse (get_job_elements pg), False)"
  by (simp add: scrape_page_def Let_def scrape_page_loop_stop_off)

lemma scrape_page_jobs_truthy:
  "j \<in> set (fst (scrape_page cfg parse K pg)) \<Longrightarrow> truthy (job_id j)"
  by (cases "STOP_ON_KNOWN_JOB cfg")
     (auto simp: scrape_page_stop_on scrape_page_stop_off dest: set_takeWhileD usable_jobs_truthy)

section \<open>The loop over the pages, one step at a time\<close>

declare scrape_loop.simps [simp del]

lemma loop_done:
  "\<not> page \<le> T \<Longrightarrow>
   scrape_loop cfg parse K site T page pg acc evs =
     \<lparr>returned = acc, events = evs, should_stop = False\<rparr>"
  by (subst scrape_loop.simps) simp

lemma loop_stop:
  "page \<le> T \<Longrightarrow> scrape_page cfg parse K pg = (jobs, True) \<Longrightarrow>
   scrape_loop cfg parse K site T page pg acc evs =
     \<lparr>returned = acc @ jobs, events = evs @ [ScrapePage page], should_stop = True\<rparr>"
  by (subst scrape_loop.simps) simp

lemma loop_last:
  "page \<le> T \<Longrightarrow> scrape_page cfg parse K pg = (jobs, False) \<Longrightarrow> T < page + 1 \<Longrightarrow>
   scrape_loop cfg parse K site T page pg acc evs =
     \<lparr>returned = acc @ jobs, events = evs @ [ScrapePage page], should_stop = False\<rparr>"
  by (subst scrape_loop.simps) simp

lemma loop_fail:
  "page \<le> T \<Longrightarrow> scrape_page cfg parse K pg = (jobs, False) \<Longrightarrow> page + 1 \<le> T \<Longrightarrow>
   load_page site (page + 1) = None \<Longrightarrow>
   scrape_loop cfg parse K site T page pg acc evs =
     \<lparr>returned = acc @ jobs,
      events = evs @ [ScrapePage page, Delay, LoadPage (page + 1) False],
      should_stop = False\<rparr>"
  by (subst scrape_loop.simps) simp

lemma loop_next:
  "page \<le> T \<Longrightarrow> scrape_page cfg parse K pg = (jobs, False) \<Longrightarrow> page + 1 \<le> T \<Longrightarrow>
   load_page site (page + 1) = Some pg' \<Longrightarrow>
   scrape_loop cfg parse K site T page pg acc evs =
     scrape_loop cfg parse K site T (page + 1) pg' (acc @ jobs)
       (evs @ [ScrapePage page, Delay, LoadPage (page + 1) True])"
  by (subst scrape_loop.simps) simp

lemma load_page_Loaded: "site p = Loaded pg \<Longrightarrow> load_page site p = Some pg"
  by (simp add: load_page_def)

lemma load_page_Some: "load_page site p = Some pg \<longleftrightarrow> site p = Loaded pg"
  by (simp add: load_page_def split: fetch_outcome.splits)

lemma load_page_None:
  "load_page site p = None \<longleftrightarrow> site p = FetchTimeout \<or> site p = FetchError"
  by (simp add: load_page_def split: fetch_outcome.splits)

text \<open>
  Several steps at once: while no page stops the loop and the next page loads, the loop
  moves on, with the jobs of the pages it passed appended in order.
\<close>

lemma loop_advance:
  assumes "page \<le> p" "p \<le> T"
    and "\<And>q. page \<le> q \<Longrightarrow> q < p \<Longrightarrow> snd (scrape_page cfg parse K (doms q)) = False"
    and "\<And>q. page < q \<Longrightarrow> q \<le> p \<Longrightarrow> site q = Loaded (doms q)"
  shows "scrape_loop cfg parse K site T page (doms page) acc evs =
         scrape_loop cfg parse K site T p (doms p)
           (acc @ concat (map (\<lambda>q. fst (scrape_page cfg parse K (doms q))) [page..p - 1]))
           (evs @ concat (map page_events [page..p - 1]))"
  using assms
proof (induction "nat (p - page)" arbitrary: page acc evs)
  case 0
  then have "page = p" by simp
  then show ?case by simp
next
  case (Suc n)
  then have lt: "page < p" by linarith
  obtain jobs where sp: "scrape_page cfg parse K (doms page) = (jobs, False)"
    using Suc.prems(3)[of page] lt by (cases "scrape_page cfg parse K (doms page)") auto
  have ld: "load_page site (page + 1) = Some (doms (page + 1))"
    using Suc.prems(4)[of "page + 1"] lt by (simp add: load_page_Loaded)
  have step: "scrape_loop cfg parse K site T page (doms page) acc evs =
      scrape_loop cfg parse K site T (page + 1) (doms (page + 1)) (acc @ jobs)
        (evs @ [ScrapePage page, Delay, LoadPage (page + 1) True])"
    using lt Suc.prems(2) sp ld by (intro loop_next) auto
  have n: "n = nat (p - (page + 1))" using Suc.hyps(2) by linarith
  have IH: "scrape_loop cfg parse K site T (page + 1) (doms (page + 1)) (acc @ jobs)
        (evs @ [ScrapePage page, Delay, LoadPage (page + 1) True]) =
      scrape_loop cfg parse K site T p (doms p)
        ((acc @ jobs) @
           concat (map (\<lambda>q. fst (scrape_page cfg parse K (doms q))) [page + 1..p - 1]))
        ((evs @ [ScrapePage page, Delay, LoadPage (page + 1) True]) @
           concat (map page_events [page + 1..p - 1]))"
    using lt Suc.prems by (intro Suc.hyps(1)[OF n]) auto
  have up: "[page..p - 1] = page # [page + 1..p - 1]"
    using lt by (simp add: upto_rec1)
  show ?case
    unfolding step IH up using sp by (simp add: page_events_def)
qed

text \<open>Every call of the loop takes one of five ways.\<close>


lemma loop_cases [case_names over known final failed onward]:
  fixes cfg parse K site T page pg acc evs
  defines "r \<equiv> scrape_loop cfg parse K site T page pg acc evs"
  obtains
    "\<not> page \<le> T" "r = \<lparr>returned = acc, events = evs, should_stop = False\<rparr>"
  | jobs where "page \<le> T" "scrape_page cfg parse K pg = (jobs, True)"
      "r = \<lparr>returned = acc @ jobs, events = evs @ [ScrapePage page], should_stop = True\<rparr>"
  | jobs where "page \<le> T" "scrape_page cfg parse K pg = (jobs, False)" "T < page + 1"
      "r = \<lparr>returned = acc @ jobs, events = evs @ [ScrapePage page], should_stop = False\<rparr>"
  | jobs where "page \<le> T" "scrape_page cfg parse K pg = (jobs, False)" "page + 1 \<le> T"
      "load_page site (page + 1) = None"
      "r = \<lparr>returned = acc @ jobs,
            events = evs @ [ScrapePage page, Delay, LoadPage (page + 1) False],
            should_stop = False\<rparr>"
  | jobs pg' where "page \<le> T" "scrape_page cfg parse K pg = (jobs, False)" "page + 1 \<le> T"
      "load_page site (page + 1) = Some pg'"
      "r = scrape_loop cfg parse K site T (page + 1) pg' (acc @ jobs)
             (evs @ [ScrapePage page, Delay, LoadPage (page + 1) True])"
proof (cases "page \<le> T")
  case False
  then show ?thesis using that(1) loop_done[of page T] by (simp add: r_def)
next
  case le: True
  obtain jobs stop where sp: "scrape_page cfg parse K pg = (jobs, stop)"
    by (cases "scrape_page cfg parse K pg")
  show ?thesis
  proof (cases stop)
    case True
    then show ?thesis using that(2)[of jobs] le sp loop_stop[OF le, of cfg parse K pg jobs] by (simp add: r_def)
  next
    case ns: False
    show ?thesis
    proof (cases "page + 1 \<le> T")
      case False
      then show ?thesis
        using that(3)[of jobs] le sp ns loop_last[OF le, of cfg parse K pg jobs] by (simp add: r_def)
    next
      case more: True
      show ?thesis
      proof (cases "load_page site (page + 1)")
        case None
        then show ?thesis
          using that(4)[of jobs] le sp ns more loop_fail[OF le, of cfg parse K pg jobs site]
          by (simp add: r_def)
      next
        case (Some pg')
        then show ?thesis
          using that(5)[of jobs pg'] le sp ns more loop_next[OF le, of cfg parse K pg jobs site pg']
          by (simp add: r_def)
      qed
    qed
  qed
qed

section \<open>What a run did, read off its log\<close>

lemma pages_scraped_append [simp]:
  "pages_scraped (xs @ ys) = pages_scraped xs @ pages_scraped ys"
  by (simp add: pages_scraped_def)

lemma pages_fetched_append [simp]:
  "pages_fetched (xs @ ys) = pages_fetched xs @ pages_fetched ys"
  by (simp add: pages_fetched_def)

lemma totals_read_append [simp]:
  "totals_read (xs @ ys) = totals_read xs @ totals_read ys"
  by (simp add: totals_read_def)

lemma observers_Nil [simp]:
  "pages_scraped [] = []" "pages_fetched [] = []" "totals_read [] = []"
  by (simp_all add: pages_scraped_def pages_fetched_def totals_read_def)

lemma observers_Cons [simp]:
  "pages_scraped (e # evs) = scraped_page e @ pages_scraped evs"
  "pages_fetched (e # evs) = fetched_page e @ pages_fetched evs"
  "totals_read (e # evs) = total_read e @ totals_read evs"
  by (simp_all add: pages_scraped_def pages_fetched_def totals_read_def)

lemma pages_scraped_page_events:
  "pages_scraped (concat (map page_events qs)) = qs"
  by (induction qs) (simp_all add: page_events_def)

lemma pages_fetched_page_events:
  "pages_fetched (concat (map page_events qs)) = map (\<lambda>q. q + 1) qs"
  by (induction qs) (simp_all add: page_events_def)

lemma totals_read_page_events:
  "totals_read (concat (map page_events qs)) = []"
  by (induction qs) (simp_all add: page_events_def)

lemma map_Suc_upto: "map (\<lambda>q. q + 1) [a..b] = [a + 1..b + 1]"
proof (induction "nat (b + 1 - a)" arbitrary: a)
  case 0
  then show ?case by simp
next
  case (Suc n)
  then have le: "a \<le> b" by linarith
  have "n = nat (b + 1 - (a + 1))" using Suc.hyps(2) by linarith
  from Suc.hyps(1)[OF this] le show ?case by (simp add: upto_rec1)
qed

section \<open>A whole run\<close>

lemma run_loaded:
  "site 1 = Loaded pg \<Longrightarrow>
   scrape_run py cfg parse site existing max_pages =
     scrape_loop cfg parse (default_ids existing) site
       (clamp_total cfg max_pages (get_total_pages py pg)) 1 pg []
       [LoadPage 1 True, GetTotalPages (get_total_pages py pg)]"
  by (simp add: scrape_run_def load_page_Loaded Let_def)

lemma run_failed:
  "site 1 = FetchTimeout \<or> site 1 = FetchError \<Longrightarrow>
   scrape_run py cfg parse site existing max_pages =
     \<lparr>returned = [], events = [LoadPage 1 False], should_stop = False\<rparr>"
  using load_page_None[of site 1] by (simp add: scrape_run_def Let_def)

text \<open>Unfolding the definitions that evaluate an example.\<close>

lemmas eval_defs = example_cfg_def example_job_def example_parse_def example_page_def
  example_site_def get_total_pages_def get_job_elements_def ascii_text_def ascii_strip_def ascii_space_def
  ascii_isdigit_def ascii_digit_def ascii_int_def clamp_total_def default_max_pages_def default_ids_def
  job_key_def fmt_opt_def or_empty_def truthy_def Let_def

section \<open>Stopping at a known job\<close>

text \<open>
  C1. With \<^verbatim>\<open>STOP_ON_KNOWN_JOB\<close> on, let page \<open>p\<close> be within the pages of the run, let
  pages 1 to \<open>p\<close> load, and let the first usable record with a known composite key stand
  on page \<open>p\<close>, after the fragments \<open>before\<close> and in front of the fragments \<open>after\<close>.
  Then the run returns exactly the usable records of pages 1 to \<open>p - 1\<close> followed by
  those of \<open>before\<close>: the known record, the records of \<open>after\<close> and those of every later
  page are left out, the records in front of it are kept. No page after \<open>p\<close> is loaded
  or scraped.
\<close>

theorem known_job_stops_pagination:
  assumes stop: "STOP_ON_KNOWN_JOB cfg"
    and p: "1 \<le> p" "p \<le> clamp_total cfg max_pages (get_total_pages py (doms 1))"
    and loaded: "\<forall>q\<in>{1..p}. site q = Loaded (doms q)"
    and earlier: "\<forall>q\<in>{1..<p}. \<forall>j\<in>set (usable_jobs parse (get_job_elements (doms q))).
                    job_key j \<notin> default_ids existing"
    and page_p: "get_job_elements (doms p) = before @ known_html # after"
    and known: "parse known_html = Returns known" "truthy (job_id known)"
               "job_key known \<in> default_ids existing"
    and first: "\<forall>j\<in>set (usable_jobs parse before). job_key j \<notin> default_ids existing"
  shows "scrape py cfg parse site existing max_pages =
           concat (map (\<lambda>q. usable_jobs parse (get_job_elements (doms q))) [1..p - 1])
           @ usable_jobs parse before
       \<and> known \<notin> set (scrape py cfg parse site existing max_pages)
       \<and> pages_fetched (events (scrape_run py cfg parse site existing max_pages)) = [1..p]
       \<and> pages_scraped (events (scrape_run py cfg parse site existing max_pages)) = [1..p]
       \<and> should_stop (scrape_run py cfg parse site existing max_pages)"
proof -
  let ?K = "default_ids existing"
  let ?T = "clamp_total cfg max_pages (get_total_pages py (doms 1))"
  let ?u = "\<lambda>q. usable_jobs parse (get_job_elements (doms q))"
  have one: "site 1 = Loaded (doms 1)" using loaded p by simp
  have early: "scrape_page cfg parse ?K (doms q) = (?u q, False)" if "1 \<le> q" "q < p" for q
  proof -
    have "\<forall>j\<in>set (?u q). job_key j \<notin> ?K" using earlier that by simp
    then show ?thesis by (simp add: scrape_page_stop_on[OF stop] takeWhile_eq_all_conv)
  qed
  have at_p: "scrape_page cfg parse ?K (doms p) = (usable_jobs parse before, True)"
    using first known by (simp add: scrape_page_stop_on[OF stop] page_p takeWhile_eq_all_conv)
  have adv: "scrape_loop cfg parse ?K site ?T 1 (doms 1) []
               [LoadPage 1 True, GetTotalPages (get_total_pages py (doms 1))] =
             scrape_loop cfg parse ?K site ?T p (doms p)
               ([] @ concat (map (\<lambda>q. fst (scrape_page cfg parse ?K (doms q))) [1..p - 1]))
               ([LoadPage 1 True, GetTotalPages (get_total_pages py (doms 1))]
                  @ concat (map page_events [1..p - 1]))"
    using p loaded by (intro loop_advance) (simp_all add: early)
  have same: "map (\<lambda>q. fst (scrape_page cfg parse ?K (doms q))) [1..p - 1] = map ?u [1..p - 1]"
    by (rule map_cong) (simp_all add: early)
  have run: "scrape_run py cfg parse site existing max_pages =
      \<lparr>returned = concat (map ?u [1..p - 1]) @ usable_jobs parse before,
       events = [LoadPage 1 True, GetTotalPages (get_total_pages py (doms 1))]
                  @ concat (map page_events [1..p - 1]) @ [ScrapePage p],
       should_stop = True\<rparr>"
    unfolding run_loaded[of site "doms 1", OF one] adv same using p at_p by (simp add: loop_stop)
  have up2: "[1..p - 1] @ [p] = [1..p]"
    using p upto_rec2[of 1 p] by simp
  have up1: "1 # [2..p] = [1..p]"
    using p upto_rec1[of 1 p] by simp
  have absent: "known \<notin> set (concat (map ?u [1..p - 1]) @ usable_jobs parse before)"
    using earlier first known(3) by auto
  show ?thesis
    unfolding scrape_def run using absent
    by (simp add: pages_scraped_page_events pages_fetched_page_events map_Suc_upto up1 up2)
qed

text \<open>
  An example for C1, with the known record on the second page: known key \<^verbatim>\<open>J1|Acme\<close>,
  page 1 with J4, page 2 with J2, J1, J3. The run returns J4 and J2.
\<close>

theorem known_job_stops_pagination_witness:
  "scrape ascii_text (example_cfg True) example_parse
     (example_site [example_page [''1'', ''2''] [''J4|Delta''],
                    example_page [''1'', ''2''] [''J2|Beta'', ''J1|Acme'', ''J3|Gamma'']])
     (Some {''J1|Acme''}) (Some 5)
   = [example_job ''J4'' ''Delta'', example_job ''J2'' ''Beta'']"
proof -
  let ?pages = "[example_page [''1'', ''2''] [''J4|Delta''],
                 example_page [''1'', ''2''] [''J2|Beta'', ''J1|Acme'', ''J3|Gamma'']]"
  let ?doms = "\<lambda>q. ?pages ! nat (q - 1)"
  have r: "{1..<2::int} = {1}" "{1..2::int} = {1, 2}" by auto
  have u: "[1..2 - 1] = [1::int]" by (simp add: upto.simps)
  show ?thesis
    using known_job_stops_pagination[of "example_cfg True" 2 "Some 5" ascii_text ?doms
        "example_site ?pages" example_parse "Some {''J1|Acme''}"
        "[''J2|Beta'']" "''J1|Acme''" "[''J3|Gamma'']" "example_job ''J1'' ''Acme''"]
    by (simp add: eval_defs r u)
qed

section \<open>A page that fails to load\<close>

text \<open>
  C3. Every exception of a load is caught in \<^verbatim>\<open>load_page\<close>, so a run is a value of
  the function \<open>scrape\<close>, never an exception. Let the load of page \<open>k\<close> fail, by timeout
  or by another error, in a run that gets as far as page \<open>k\<close>: the pages before it
  loaded and none of them stopped the run, and \<open>k\<close> is page 1 or within the pages of the
  run. Then the run returns exactly the jobs \<^verbatim>\<open>scrape_page\<close> gave for pages 1 to
  \<open>k - 1\<close>, in order; when \<open>k\<close> is 1 this is the empty list. The failed load is the
  last thing the run does.
\<close>

theorem fetch_failure_returns_accumulated:
  assumes k: "1 \<le> k"
    and in_range: "k = 1 \<or> k \<le> clamp_total cfg max_pages (get_total_pages py (doms 1))"
    and loaded: "\<forall>q\<in>{1..<k}. site q = Loaded (doms q)"
    and no_stop: "\<forall>q\<in>{1..<k}. \<not> snd (scrape_page cfg parse (default_ids existing) (doms q))"
    and fails: "site k = FetchTimeout \<or> site k = FetchError"
  shows "scrape py cfg parse site existing max_pages =
           concat (map (\<lambda>q. fst (scrape_page cfg parse (default_ids existing) (doms q))) [1..k - 1])
       \<and> (k = 1 \<longrightarrow> scrape py cfg parse site existing max_pages = [])
       \<and> \<not> should_stop (scrape_run py cfg parse site existing max_pages)
       \<and> pages_fetched (events (scrape_run py cfg parse site existing max_pages)) = [1..k]
       \<and> pages_scraped (events (scrape_run py cfg parse site existing max_pages)) = [1..k - 1]
       \<and> last (events (scrape_run py cfg parse site existing max_pages)) = LoadPage k False"
proof (cases "k = 1")
  case True
  then show ?thesis
    using fails by (simp add: scrape_def run_failed)
next
  case False
  let ?K = "default_ids existing"
  let ?T = "clamp_total cfg max_pages (get_total_pages py (doms 1))"
  let ?f = "\<lambda>q. fst (scrape_page cfg parse ?K (doms q))"
  let ?E = "[LoadPage 1 True, GetTotalPages (get_total_pages py (doms 1))]"
  from False k in_range have k2: "2 \<le> k" and kT: "k \<le> ?T" by auto
  have one: "site 1 = Loaded (doms 1)" using loaded k2 by simp
  have adv: "scrape_loop cfg parse ?K site ?T 1 (doms 1) [] ?E =
             scrape_loop cfg parse ?K site ?T (k - 1) (doms (k - 1))
               ([] @ concat (map ?f [1..k - 1 - 1]))
               (?E @ concat (map page_events [1..k - 1 - 1]))"
    using k2 kT loaded no_stop by (intro loop_advance) simp_all
  have "k - 1 \<in> {1..<k}" using k2 by simp
  with no_stop have "\<not> snd (scrape_page cfg parse ?K (doms (k - 1)))" by blast
  then have sp: "scrape_page cfg parse ?K (doms (k - 1)) = (?f (k - 1), False)"
    by (cases "scrape_page cfg parse ?K (doms (k - 1))") auto
  have ld: "load_page site (k - 1 + 1) = None"
    using fails by (simp add: load_page_None)
  have fin: "scrape_loop cfg parse ?K site ?T (k - 1) (doms (k - 1))
               ([] @ concat (map ?f [1..k - 1 - 1]))
               (?E @ concat (map page_events [1..k - 1 - 1])) =
             \<lparr>returned = ([] @ concat (map ?f [1..k - 1 - 1])) @ ?f (k - 1),
              events = (?E @ concat (map page_events [1..k - 1 - 1]))
                         @ [ScrapePage (k - 1), Delay, LoadPage (k - 1 + 1) False],
              should_stop = False\<rparr>"
    using kT sp ld by (intro loop_fail) simp_all
  have up2: "[1..k - 1 - 1] @ [k - 1] = [1..k - 1]"
    using k2 upto_rec2[of 1 "k - 1"] by simp
  have cc: "concat (map ?f [1..k - 1 - 1]) @ ?f (k - 1) = concat (map ?f [1..k - 1])"
    unfolding up2[symmetric] by simp
  have up1: "1 # [2..k - 1] = [1..k - 1]"
    using k2 upto_rec1[of 1 "k - 1"] by simp
  have up3: "[1..k - 1] @ [k] = [1..k]"
    using k2 upto_rec2[of 1 k] by simp
  have fetched: "1 # map (\<lambda>q. q + 1) [1..k - 1 - 1] @ [k] = [1..k]"
  proof -
    have "(1 # [2..k - 1]) @ [k] = [1..k]" unfolding up1 by (rule up3)
    then show ?thesis by (simp add: map_Suc_upto)
  qed
  show ?thesis
    unfolding scrape_def run_loaded[of site "doms 1", OF one] adv fin
    using False cc up2 fetched
    by (simp add: pages_scraped_page_events pages_fetched_page_events)
qed

text \<open>
  Examples for C3: a listing of three pages whose second page fails to load gives the
  record of page 1; a listing whose first page times out gives the empty list.
\<close>

theorem fetch_failure_returns_accumulated_witness:
  "scrape ascii_text (example_cfg True) example_parse
     (example_site [example_page [''1'', ''2'', ''3''] [''J4|Delta'']]) (Some {''J1|Acme''}) (Some 5)
   = [example_job ''J4'' ''Delta'']
   \<and> scrape ascii_text (example_cfg True) example_parse (\<lambda>q. FetchTimeout) (Some {''J1|Acme''}) (Some 5) = []"
proof -
  let ?pages = "[example_page [''1'', ''2'', ''3''] [''J4|Delta'']]"
  let ?doms = "\<lambda>q. ?pages ! nat (q - 1)"
  have r: "{1..<2::int} = {1}" by auto
  have u: "[1..2 - 1] = [1::int]" by (simp add: upto.simps)
  have a: "scrape ascii_text (example_cfg True) example_parse (example_site ?pages) (Some {''J1|Acme''}) (Some 5)
           = [example_job ''J4'' ''Delta'']"
    using fetch_failure_returns_accumulated[of 2 "example_cfg True" "Some 5" ascii_text ?doms
        "example_site ?pages" example_parse "Some {''J1|Acme''}"]
    by (simp add: eval_defs scrape_page_def r u)
  have b: "scrape ascii_text (example_cfg True) example_parse (\<lambda>q. FetchTimeout) (Some {''J1|Acme''}) (Some 5) = []"
    using fetch_failure_returns_accumulated[of 1 "example_cfg True" "Some 5" ascii_text ?doms
        "\<lambda>q. FetchTimeout" example_parse "Some {''J1|Acme''}"]
    by simp
  from a b show ?thesis by simp
qed

section \<open>Without stopping at known jobs\<close>

text \<open>
  C4. With \<^verbatim>\<open>STOP_ON_KNOWN_JOB\<close> off and every page loading, the run scrapes the
  pages 1 to \<open>T\<close>, each once and in order, where \<open>T\<close> is the total read on page 1 after
  \<^verbatim>\<open>clamp_total\<close>; in particular it scrapes every page from 1 to the smaller of
  \<^verbatim>\<open>max_pages\<close> and that total. It returns the usable records of all these pages,
  whatever the set of known keys is.
\<close>

theorem no_stop_scrapes_every_page:
  assumes off: "\<not> STOP_ON_KNOWN_JOB cfg"
    and T: "T = clamp_total cfg max_pages (get_total_pages py (doms 1))"
    and one: "site 1 = Loaded (doms 1)"
    and loaded: "\<forall>q\<in>{1..T}. site q = Loaded (doms q)"
  shows "pages_scraped (events (scrape_run py cfg parse site existing max_pages)) = [1..T]
       \<and> (\<forall>m. max_pages = Some m \<longrightarrow>
            (\<forall>p. 1 \<le> p \<and> p \<le> min m (get_total_pages py (doms 1)) \<longrightarrow>
                 p \<in> set (pages_scraped (events (scrape_run py cfg parse site existing max_pages)))))
       \<and> scrape py cfg parse site existing max_pages =
           concat (map (\<lambda>q. usable_jobs parse (get_job_elements (doms q))) [1..T])
       \<and> \<not> should_stop (scrape_run py cfg parse site existing max_pages)"
proof -
  let ?K = "default_ids existing"
  let ?u = "\<lambda>q. usable_jobs parse (get_job_elements (doms q))"
  let ?E = "[LoadPage 1 True, GetTotalPages (get_total_pages py (doms 1))]"
  have sp: "scrape_page cfg parse ?K pg = (usable_jobs parse (get_job_elements pg), False)" for pg
    by (rule scrape_page_stop_off[OF off])
  have run: "scrape_run py cfg parse site existing max_pages =
      \<lparr>returned = concat (map ?u [1..T]),
       events = ?E @ concat (map page_events [1..T - 1]) @ (if 1 \<le> T then [ScrapePage T] else []),
       should_stop = False\<rparr>"
  proof (cases "1 \<le> T")
    case False
    then show ?thesis
      unfolding run_loaded[of site "doms 1", OF one] T[symmetric]
      by (simp add: loop_done)
  next
    case True
    have adv: "scrape_loop cfg parse ?K site T 1 (doms 1) [] ?E =
               scrape_loop cfg parse ?K site T T (doms T)
                 ([] @ concat (map (\<lambda>q. fst (scrape_page cfg parse ?K (doms q))) [1..T - 1]))
                 (?E @ concat (map page_events [1..T - 1]))"
      using True loaded by (intro loop_advance) (simp_all add: sp)
    have up2: "[1..T - 1] @ [T] = [1..T]"
      using True upto_rec2[of 1 T] by simp
    have cc: "concat (map ?u [1..T - 1]) @ ?u T = concat (map ?u [1..T])"
      unfolding up2[symmetric] by simp
    show ?thesis
      unfolding run_loaded[of site "doms 1", OF one] T[symmetric] adv
      using True cc by (simp add: sp loop_last[where jobs = "?u T"])
  qed
  have scr: "pages_scraped (events (scrape_run py cfg parse site existing max_pages)) = [1..T]"
  proof (cases "1 \<le> T")
    case True
    then have "[1..T - 1] @ [T] = [1..T]" using upto_rec2[of 1 T] by simp
    then show ?thesis unfolding run using True by (simp add: pages_scraped_page_events)
  next
    case False
    then show ?thesis unfolding run by (simp add: pages_scraped_page_events)
  qed
  have le: "min m (get_total_pages py (doms 1)) \<le> T" if "max_pages = Some m" for m
    using that unfolding T by (simp add: clamp_total_def default_max_pages_def)
  show ?thesis
    unfolding scr scrape_def using le by (fastforce simp: run)
qed


text \<open>
  An example for C4: two pages, the first starting with a known record; both pages are
  scraped and all three records returned.
\<close>

theorem no_stop_scrapes_every_page_witness:
  "pages_scraped (events (scrape_run ascii_text (example_cfg False) example_parse
     (example_site [example_page [''1'', ''2''] [''J1|Acme'', ''J2|Beta''],
                    example_page [''1'', ''2''] [''J3|Gamma'']])
     (Some {''J1|Acme''}) (Some 5))) = [1, 2]
   \<and> scrape ascii_text (example_cfg False) example_parse
     (example_site [example_page [''1'', ''2''] [''J1|Acme'', ''J2|Beta''],
                    example_page [''1'', ''2''] [''J3|Gamma'']])
     (Some {''J1|Acme''}) (Some 5)
   = [example_job ''J1'' ''Acme'', example_job ''J2'' ''Beta'', example_job ''J3'' ''Gamma'']"
proof -
  let ?pages = "[example_page [''1'', ''2''] [''J1|Acme'', ''J2|Beta''],
                 example_page [''1'', ''2''] [''J3|Gamma'']]"
  let ?doms = "\<lambda>q. ?pages ! nat (q - 1)"
  have r: "{1..2::int} = {1, 2}" by auto
  have u: "[1..2] = [1, 2::int]" by (simp add: upto.simps)
  show ?thesis
    using no_stop_scrapes_every_page[of "example_cfg False" 2 "Some 5" ascii_text ?doms
        "example_site ?pages" example_parse "Some {''J1|Acme''}"]
    by (simp add: eval_defs r u)
qed

section \<open>Records without an id\<close>

lemma loop_returned_truthy:
  "\<forall>j\<in>set acc. truthy (job_id j) \<Longrightarrow>
   \<forall>j\<in>set (returned (scrape_loop cfg parse K site T page pg acc evs)). truthy (job_id j)"
proof (induction "nat (T + 1 - page)" arbitrary: page pg acc evs)
  case 0
  then show ?case by (simp add: loop_done)
next
  case (Suc n)
  have jobs: "\<forall>j\<in>set (acc @ jobs). truthy (job_id j)"
    if "scrape_page cfg parse K pg = (jobs, stop)" for jobs stop
    using scrape_page_jobs_truthy[of _ cfg parse K pg] that Suc.prems by auto
  show ?case
  proof (cases cfg parse K site T page pg acc evs rule: loop_cases)
    case over
    then show ?thesis using Suc.prems by simp
  next
    case (known jobs)
    then show ?thesis using jobs[of jobs True] by simp
  next
    case (final jobs)
    then show ?thesis using jobs[of jobs False] by simp
  next
    case (failed jobs)
    then show ?thesis using jobs[of jobs False] by simp
  next
    case (onward jobs pg')
    have "n = nat (T + 1 - (page + 1))" using Suc.hyps(2) by linarith
    from Suc.hyps(1)[OF this jobs[of jobs False], of pg'] onward
    show ?thesis by simp
  qed
qed

lemma truthy_iff: "truthy v \<longleftrightarrow> v \<noteq> None \<and> v \<noteq> Some []"
  by (simp add: truthy_def split: option.splits)

text \<open>
  C5. No record of the list a run returns has an absent or empty id. A fragment that
  parses to such a record changes nothing on its page: \<^verbatim>\<open>scrape_page\<close> returns the same
  jobs and the same flag as for the page without that fragment, so the record is not among
  the jobs and is never tested against the known keys, whatever these are.
\<close>

theorem missing_id_is_dropped:
  "(\<forall>j\<in>set (scrape py cfg parse site existing max_pages). job_id j \<noteq> None \<and> job_id j \<noteq> Some [])
   \<and> (get_job_elements pg = before @ h # after \<and> get_job_elements pg' = before @ after
        \<and> parse h = Returns r \<and> (job_id r = None \<or> job_id r = Some [])
      \<longrightarrow> scrape_page cfg parse K pg = scrape_page cfg parse K pg'
          \<and> r \<notin> set (fst (scrape_page cfg parse K pg)))"
proof -
  have a: "\<forall>j\<in>set (scrape py cfg parse site existing max_pages). job_id j \<noteq> None \<and> job_id j \<noteq> Some []"
  proof (cases "load_page site 1")
    case None
    then show ?thesis by (simp add: scrape_def scrape_run_def)
  next
    case (Some pg1)
    then show ?thesis
      using loop_returned_truthy[of "[]" cfg parse "default_ids existing" site
          "clamp_total cfg max_pages (get_total_pages py pg1)" 1 pg1
          "[LoadPage 1 True, GetTotalPages (get_total_pages py pg1)]"]
      by (simp add: scrape_def scrape_run_def Let_def truthy_iff)
  qed
  have b: "scrape_page cfg parse K pg = scrape_page cfg parse K pg'
           \<and> r \<notin> set (fst (scrape_page cfg parse K pg))"
    if "get_job_elements pg = before @ h # after" "get_job_elements pg' = before @ after"
       "parse h = Returns r" "job_id r = None \<or> job_id r = Some []"
  proof -
    have nt: "\<not> truthy (job_id r)" using that(4) by (auto simp: truthy_iff)
    have same: "usable_jobs parse (get_job_elements pg) = usable_jobs parse (get_job_elements pg')"
      using that(1-3) nt by simp
    have "scrape_page cfg parse K pg = scrape_page cfg parse K pg'"
      by (cases "STOP_ON_KNOWN_JOB cfg") (simp_all add: scrape_page_stop_on scrape_page_stop_off same)
    moreover have "r \<notin> set (fst (scrape_page cfg parse K pg))"
      using scrape_page_jobs_truthy[of r cfg parse K pg] nt by blast
    ultimately show ?thesis by simp
  qed
  from a b show ?thesis by blast
qed

text \<open>
  An example for C5: the fragment \<^verbatim>\<open>|Acme\<close> parses to a record with an empty id. Its
  key would be the known key \<^verbatim>\<open>|Acme\<close>, yet it neither stops the page nor is returned.
\<close>

theorem missing_id_is_dropped_witness:
  "scrape_page (example_cfg True) example_parse {''|Acme''}
     (example_page [] [''J2|Beta'', ''|Acme'', ''J3|Gamma''])
   = ([example_job ''J2'' ''Beta'', example_job ''J3'' ''Gamma''], False)"
  using missing_id_is_dropped[of ascii_text "example_cfg True" example_parse "\<lambda>q. FetchError" None None
      "example_page [] [''J2|Beta'', ''|Acme'', ''J3|Gamma'']" "[''J2|Beta'']" "''|Acme''"
      "[''J3|Gamma'']" "example_page [] [''J2|Beta'', ''J3|Gamma'']" "example_job [] ''Acme''"
      "{''|Acme''}"]
  by (simp add: eval_defs scrape_page_def)

section \<open>The composite key\<close>

text \<open>
  C8. The key of a record with an id is the id, then a bar, then the client name, an
  absent client name giving the empty string. \<^verbatim>\<open>scrape_page\<close> tests this string, and
  no other, against the known keys: its flag is true exactly when stopping is on and the
  page has a usable record for which this string is a known key.
\<close>

theorem composite_key_is_id_bar_client:
  "(job_id j = Some i \<longrightarrow>
      job_key j = i @ ''|'' @ (case client_name j of None \<Rightarrow> [] | Some c \<Rightarrow> c))
   \<and> (snd (scrape_page cfg parse K pg) \<longleftrightarrow>
        STOP_ON_KNOWN_JOB cfg \<and>
        (\<exists>r\<in>set (usable_jobs parse (get_job_elements pg)). \<exists>i.
            job_id r = Some i \<and>
            i @ ''|'' @ (case client_name r of None \<Rightarrow> [] | Some c \<Rightarrow> c) \<in> K))"
proof -
  have key: "job_key r = i @ ''|'' @ (case client_name r of None \<Rightarrow> [] | Some c \<Rightarrow> c)"
    if "job_id r = Some i" for r i
    using that by (simp add: job_key_def fmt_opt_def or_empty_def truthy_def split: option.splits)
  have id: "\<exists>i. job_id r = Some i" if "r \<in> set (usable_jobs parse (get_job_elements pg))" for r
    using usable_jobs_truthy[OF that] by (simp add: truthy_def split: option.splits)
  let ?U = "usable_jobs parse (get_job_elements pg)"
  let ?k = "\<lambda>r i. i @ ''|'' @ (case client_name r of None \<Rightarrow> [] | Some c \<Rightarrow> c)"
  have ex: "(\<exists>r\<in>set ?U. job_key r \<in> K) \<longleftrightarrow>
            (\<exists>r\<in>set ?U. \<exists>i. job_id r = Some i \<and> ?k r i \<in> K)"
  proof
    assume "\<exists>r\<in>set ?U. job_key r \<in> K"
    then obtain r where r: "r \<in> set ?U" "job_key r \<in> K" by blast
    from id[OF r(1)] obtain i where i: "job_id r = Some i" by blast
    from key[OF i] r(2) have "?k r i \<in> K" by simp
    with r(1) i show "\<exists>r\<in>set ?U. \<exists>i. job_id r = Some i \<and> ?k r i \<in> K" by blast
  next
    assume "\<exists>r\<in>set ?U. \<exists>i. job_id r = Some i \<and> ?k r i \<in> K"
    then obtain r i where r: "r \<in> set ?U" "job_id r = Some i" "?k r i \<in> K" by blast
    from key[OF r(2)] r(3) have "job_key r \<in> K" by simp
    with r(1) show "\<exists>r\<in>set ?U. job_key r \<in> K" by blast
  qed
  have flag: "snd (scrape_page cfg parse K pg) \<longleftrightarrow>
              STOP_ON_KNOWN_JOB cfg \<and> (\<exists>r\<in>set ?U. job_key r \<in> K)"
    by (cases "STOP_ON_KNOWN_JOB cfg") (simp_all add: scrape_page_stop_on scrape_page_stop_off)
  have first: "job_id j = Some i \<longrightarrow> job_key j = ?k j i"
    using key[of j i] by blast
  from first flag ex show ?thesis by blast
qed

text \<open>
  Examples for C8: the key of id J1 and client Acme, and of id J1 without a client name.
\<close>

theorem composite_key_is_id_bar_client_witness:
  "job_key (example_job ''J1'' ''Acme'') = ''J1|Acme''
   \<and> job_key ((example_job ''J1'' ''Acme'')\<lparr>client_name := None\<rparr>) = ''J1|''"
  using composite_key_is_id_bar_client[of "example_job ''J1'' ''Acme''" "''J1''"]
    composite_key_is_id_bar_client[of "(example_job ''J1'' ''Acme'')\<lparr>client_name := None\<rparr>" "''J1''"]
  by (simp add: example_job_def)

section \<open>Missing pagination\<close>

lemma page_numbers_loop_numbers:
  "page_numbers_loop py links page_numbers = page_numbers @ link_numbers py links"
  by (induction links arbitrary: page_numbers)
     (auto simp: link_numbers_def Let_def split: attempt.splits)

lemma link_numbers_none:
  "\<forall>l\<in>set links. l = Raises \<or>
     (\<exists>t. l = Returns t \<and> (\<not> isdigit py (strip py t) \<or> int_of py (strip py t) = Raises)) \<Longrightarrow>
   link_numbers py links = []"
  by (induction links) (auto simp: link_numbers_def)

lemma link_numbers_skip:
  "link_numbers py (ls1 @ Raises # ls2) = link_numbers py (ls1 @ ls2)"
  by (simp add: link_numbers_def)

lemma foldl_max_Max: "foldl max a ys = Max (set (a # ys))" for a :: int
proof -
  have "(\<lambda>x s. max s x) = (max :: int \<Rightarrow> int \<Rightarrow> int)"
    by (intro ext) (simp add: max.commute)
  then show ?thesis using Max.set_eq_fold[of a ys] by (simp add: foldl_conv_fold)
qed

lemma max_list_Max: "xs \<noteq> [] \<Longrightarrow> max_list xs = Max (set xs)"
proof -
  assume "xs \<noteq> []"
  then obtain x ys where xs: "xs = x # ys" by (cases xs) auto
  show ?thesis unfolding xs using foldl_max_Max[of x ys] by simp
qed

lemma get_total_pages_links:
  assumes q: "query_pagination pg = Returns (Some (Returns links))"
  shows "get_total_pages py pg =
           (if link_numbers py links = [] then 1 else Max (set (link_numbers py links)))"
proof -
  have pn: "page_numbers_loop py links [] = link_numbers py links"
    by (simp add: page_numbers_loop_numbers)
  have empty: "link_numbers py [] = []" by (simp add: link_numbers_def)
  show ?thesis
  proof (cases "link_numbers py links = []")
    case True
    then show ?thesis by (simp add: get_total_pages_def q pn Let_def)
  next
    case False
    then have "links \<noteq> []" using empty by auto
    then show ?thesis
      using False by (simp add: get_total_pages_def q pn Let_def max_list_Max)
  qed
qed

lemma run_one_page:
  assumes one: "site 1 = Loaded pg"
    and T: "clamp_total cfg max_pages (get_total_pages py pg) = 1"
  shows "events (scrape_run py cfg parse site existing max_pages) =
           [LoadPage 1 True, GetTotalPages (get_total_pages py pg), ScrapePage 1]"
proof -
  let ?E = "[LoadPage 1 True, GetTotalPages (get_total_pages py pg)]"
  have "events (scrape_loop cfg parse (default_ids existing) site 1 1 pg [] ?E) = ?E @ [ScrapePage 1]"
    by (cases cfg parse "default_ids existing" site "1::int" "1::int" pg "[]::job list" ?E
          rule: loop_cases) simp_all
  then show ?thesis
    unfolding run_loaded[of site pg, OF one] T by simp
qed

text \<open>
  C7 (amended). When the pagination cannot be read at all (the query for it raises or
  finds no element, the query for its links raises or finds none, or every link raises
  or has a text that is not numeric or cannot be converted), \<^verbatim>\<open>get_total_pages\<close>
  returns 1, and a run that loads such a first page, with a page limit that is not
  negative, loads and scrapes page 1 and no other. An error on one link alone is not such
  a case: that link is skipped, so the result is the one for the other links, and
  whenever some link contributes a number the result is the greatest of these numbers.
\<close>

theorem missing_pagination_is_one_page:
  assumes missing:
    "query_pagination pg = Raises \<or> query_pagination pg = Returns None \<or>
     query_pagination pg = Returns (Some Raises) \<or>
     (\<exists>links. query_pagination pg = Returns (Some (Returns links)) \<and>
        (\<forall>l\<in>set links. l = Raises \<or>
           (\<exists>t. l = Returns t \<and>
                (\<not> isdigit py (strip py t) \<or> int_of py (strip py t) = Raises))))"
  shows "get_total_pages py pg = 1
       \<and> (site 1 = Loaded pg \<and> (\<forall>m. default_max_pages cfg max_pages = Some m \<longrightarrow> 0 \<le> m) \<longrightarrow>
            pages_scraped (events (scrape_run py cfg parse site existing max_pages)) = [1]
          \<and> pages_fetched (events (scrape_run py cfg parse site existing max_pages)) = [1])
       \<and> (query_pagination pg1 = Returns (Some (Returns (ls1 @ Raises # ls2)))
            \<and> query_pagination pg2 = Returns (Some (Returns (ls1 @ ls2))) \<longrightarrow>
            get_total_pages py pg1 = get_total_pages py pg2)
       \<and> (query_pagination pg3 = Returns (Some (Returns links3))
            \<and> link_numbers py links3 \<noteq> [] \<longrightarrow>
            get_total_pages py pg3 = Max (set (link_numbers py links3))
            \<and> get_total_pages py pg3 \<in> set (link_numbers py links3)
            \<and> (\<forall>n\<in>set (link_numbers py links3). n \<le> get_total_pages py pg3))"
proof -
  have total: "get_total_pages py pg = 1"
  proof -
    consider "query_pagination pg = Raises" | "query_pagination pg = Returns None"
      | "query_pagination pg = Returns (Some Raises)"
      | links where "query_pagination pg = Returns (Some (Returns links))"
          "\<forall>l\<in>set links. l = Raises \<or>
             (\<exists>t. l = Returns t \<and>
                  (\<not> isdigit py (strip py t) \<or> int_of py (strip py t) = Raises))"
      using missing by blast
    then show ?thesis
    proof cases
      case 1
      then show ?thesis by (simp add: get_total_pages_def)
    next
      case 2
      then show ?thesis by (simp add: get_total_pages_def)
    next
      case 3
      then show ?thesis by (simp add: get_total_pages_def)
    next
      case 4
      then show ?thesis
        using get_total_pages_links[of pg links py] link_numbers_none[of links py] by simp
    qed
  qed
  have run: "pages_scraped (events (scrape_run py cfg parse site existing max_pages)) = [1]
      \<and> pages_fetched (events (scrape_run py cfg parse site existing max_pages)) = [1]"
    if one: "site 1 = Loaded pg"
      and limit: "\<forall>m. default_max_pages cfg max_pages = Some m \<longrightarrow> 0 \<le> m"
  proof -
    have T: "clamp_total cfg max_pages (get_total_pages py pg) = 1"
      using limit unfolding total clamp_total_def
      by (cases "default_max_pages cfg max_pages") auto
    show ?thesis by (simp add: run_one_page[of site pg cfg max_pages py, OF one T])
  qed
  have skip: "get_total_pages py pg1 = get_total_pages py pg2"
    if "query_pagination pg1 = Returns (Some (Returns (ls1 @ Raises # ls2)))"
       "query_pagination pg2 = Returns (Some (Returns (ls1 @ ls2)))"
    using get_total_pages_links[OF that(1), of py] get_total_pages_links[OF that(2), of py]
    by (simp add: link_numbers_skip)
  have greatest: "get_total_pages py pg3 = Max (set (link_numbers py links3))
            \<and> get_total_pages py pg3 \<in> set (link_numbers py links3)
            \<and> (\<forall>n\<in>set (link_numbers py links3). n \<le> get_total_pages py pg3)"
    if "query_pagination pg3 = Returns (Some (Returns links3))" "link_numbers py links3 \<noteq> []"
  proof -
    have eq: "get_total_pages py pg3 = Max (set (link_numbers py links3))"
      using get_total_pages_links[OF that(1), of py] that(2) by simp
    have "Max (set (link_numbers py links3)) \<in> set (link_numbers py links3)"
      using that(2) by (intro Max_in) simp_all
    moreover have "\<forall>n\<in>set (link_numbers py links3). n \<le> Max (set (link_numbers py links3))"
      by simp
    ultimately show ?thesis unfolding eq by blast
  qed
  from total run skip greatest show ?thesis by blast
qed

text \<open>
  Examples for C7: link texts that are not numbers give a total of 1 and a run of one
  page; a link that raises after a link with the text 7 gives what the link 7 alone
  gives; the links 3, 7, 5 and a link that is not a number give 7.
\<close>

theorem missing_pagination_is_one_page_witness:
  "get_total_pages ascii_text (example_page [''Next'', '' ''] [''J1|Acme'']) = 1
   \<and> pages_scraped (events (scrape_run ascii_text (example_cfg False) example_parse
         (example_site (replicate 3 (example_page [''Next'', '' ''] [''J1|Acme''])))
         None (Some 5))) = [1]
   \<and> get_total_pages ascii_text
         \<lparr>query_pagination = Returns (Some (Returns [Returns ''7'', Raises])),
          query_job_items = Raises\<rparr>
       = get_total_pages ascii_text (example_page [''7''] [])
   \<and> get_total_pages ascii_text (example_page [''3'', '' 7 '', ''5'', ''Next''] []) = 7"
  using missing_pagination_is_one_page[
      where pg = "example_page [''Next'', '' ''] [''J1|Acme'']"
        and py = ascii_text
        and site = "example_site (replicate 3 (example_page [''Next'', '' ''] [''J1|Acme'']))"
        and cfg = "example_cfg False" and max_pages = "Some 5" and parse = example_parse
        and existing = None
        and ?pg1.0 = "\<lparr>query_pagination = Returns (Some (Returns [Returns ''7'', Raises])),
                      query_job_items = Raises\<rparr>"
        and ?ls1.0 = "[Returns ''7'']" and ?ls2.0 = "[]"
        and ?pg2.0 = "example_page [''7''] []"
        and ?pg3.0 = "example_page [''3'', '' 7 '', ''5'', ''Next''] []"
        and ?links3.0 = "map Returns [''3'', '' 7 '', ''5'', ''Next'']"]
  by (simp add: example_page_def example_site_def default_max_pages_def link_numbers_def
        ascii_text_def ascii_strip_def ascii_space_def ascii_isdigit_def ascii_digit_def
        ascii_int_def)

text \<open>
  C7 as first stated, with any error while reading the pagination giving 1, fails: when
  the first of two links raises and the second has the text 5, the total is 5.
\<close>

theorem one_unreadable_link_does_not_give_one:
  "get_total_pages ascii_text
     \<lparr>query_pagination = Returns (Some (Returns [Raises, Returns ''5''])),
      query_job_items = Returns []\<rparr> = 5
   \<and> get_total_pages ascii_text
       \<lparr>query_pagination = Returns (Some (Returns [Raises, Returns ''5''])),
        query_job_items = Returns []\<rparr> \<noteq> 1"
  by (simp add: eval_defs)

section \<open>How many pages a run loads\<close>

lemma loop_fetched_bound:
  "length (pages_fetched (events (scrape_loop cfg parse K site T page pg acc evs)))
     \<le> length (pages_fetched evs) + nat (T - page)
   \<and> totals_read (events (scrape_loop cfg parse K site T page pg acc evs)) = totals_read evs
   \<and> take (length evs) (events (scrape_loop cfg parse K site T page pg acc evs)) = evs"
proof (induction "nat (T + 1 - page)" arbitrary: page pg acc evs)
  case 0
  then show ?case by (simp add: loop_done)
next
  case (Suc n)
  show ?case
  proof (cases cfg parse K site T page pg acc evs rule: loop_cases)
    case over
    then show ?thesis by simp
  next
    case (known jobs)
    then show ?thesis by simp
  next
    case (final jobs)
    then show ?thesis by simp
  next
    case (failed jobs)
    then show ?thesis by simp
  next
    case (onward jobs pg')
    let ?evs = "evs @ [ScrapePage page, Delay, LoadPage (page + 1) True]"
    let ?r = "scrape_loop cfg parse K site T (page + 1) pg' (acc @ jobs) ?evs"
    have n: "n = nat (T + 1 - (page + 1))" using Suc.hyps(2) by linarith
    note IH = Suc.hyps(1)[OF n, of pg' "acc @ jobs" ?evs]
    have "length (pages_fetched (events ?r))
            \<le> Suc (length (pages_fetched evs) + nat (T - (page + 1)))"
      using IH by simp
    moreover have "Suc (nat (T - (page + 1))) = nat (T - page)"
      using onward(3) by linarith
    ultimately have len:
      "length (pages_fetched (events ?r)) \<le> length (pages_fetched evs) + nat (T - page)"
      by linarith
    have tot: "totals_read (events ?r) = totals_read evs"
      using IH by simp
    have "take (length ?evs) (events ?r) = ?evs" using IH by blast
    then have "take (length evs) (take (length ?evs) (events ?r)) = take (length evs) ?evs"
      by simp
    then have pre: "take (length evs) (events ?r) = evs" by simp
    from len tot pre show ?thesis unfolding onward(5) by blast
  qed
qed

text \<open>
  C6 (amended). In a run whose first page loads, the number of pages the run asks the
  browser to load is at most the total read on page 1 after \<^verbatim>\<open>clamp_total\<close>, and at
  least page 1 is loaded: with a limit \<open>m\<close> that is not 0 the bound is the smaller of
  the total and \<open>m\<close>; a limit of 0 (or none at all) does not bound the run, and then the
  bound is the total alone. \<^verbatim>\<open>get_total_pages\<close> is called once, on page 1, right after
  that page has loaded. With a total of 2, a limit of 5 and no known job stopping the run
  on page 1, the pages loaded are 1 and 2.
\<close>

theorem pages_fetched_bounded:
  assumes one: "site 1 = Loaded pg"
  shows "int (length (pages_fetched (events (scrape_run py cfg parse site existing max_pages))))
           \<le> max 1 (clamp_total cfg max_pages (get_total_pages py pg))
       \<and> (\<forall>m. max_pages = Some m \<and> m \<noteq> 0 \<longrightarrow>
             int (length (pages_fetched (events (scrape_run py cfg parse site existing max_pages))))
               \<le> max 1 (min (get_total_pages py pg) m))
       \<and> (default_max_pages cfg max_pages = None \<or> default_max_pages cfg max_pages = Some 0 \<longrightarrow>
             int (length (pages_fetched (events (scrape_run py cfg parse site existing max_pages))))
               \<le> max 1 (get_total_pages py pg))
       \<and> totals_read (events (scrape_run py cfg parse site existing max_pages)) = [get_total_pages py pg]
       \<and> take 2 (events (scrape_run py cfg parse site existing max_pages)) =
             [LoadPage 1 True, GetTotalPages (get_total_pages py pg)]
       \<and> (get_total_pages py pg = 2 \<and> max_pages = Some 5 \<and>
            \<not> snd (scrape_page cfg parse (default_ids existing) pg) \<longrightarrow>
             pages_fetched (events (scrape_run py cfg parse site existing max_pages)) = [1, 2])"
proof -
  let ?K = "default_ids existing"
  let ?T = "clamp_total cfg max_pages (get_total_pages py pg)"
  let ?E = "[LoadPage 1 True, GetTotalPages (get_total_pages py pg)]"
  let ?r = "scrape_run py cfg parse site existing max_pages"
  have run: "?r = scrape_loop cfg parse ?K site ?T 1 pg [] ?E"
    by (rule run_loaded[of site pg, OF one])
  note b = loop_fetched_bound[of cfg parse ?K site ?T 1 pg "[]" ?E]
  have "length (pages_fetched (events ?r)) \<le> 1 + nat (?T - 1)"
    using b unfolding run by simp
  then have len: "int (length (pages_fetched (events ?r))) \<le> max 1 ?T"
    by linarith
  have some: "int (length (pages_fetched (events ?r))) \<le> max 1 (min (get_total_pages py pg) m)"
    if "max_pages = Some m" "m \<noteq> 0" for m
    using len that by (simp add: clamp_total_def default_max_pages_def)
  have none: "int (length (pages_fetched (events ?r))) \<le> max 1 (get_total_pages py pg)"
    if "default_max_pages cfg max_pages = None \<or> default_max_pages cfg max_pages = Some 0"
    using len that by (auto simp: clamp_total_def)
  have tot: "totals_read (events ?r) = [get_total_pages py pg]"
    using b unfolding run by simp
  have pre: "take 2 (events ?r) = ?E"
    using b unfolding run by (simp add: numeral_2_eq_2)
  have two: "pages_fetched (events ?r) = [1, 2]"
    if t: "get_total_pages py pg = 2" and m: "max_pages = Some 5"
      and ns: "\<not> snd (scrape_page cfg parse ?K pg)"
  proof -
    have T: "?T = 2" using t m by (simp add: clamp_total_def default_max_pages_def)
    obtain jobs where sp: "scrape_page cfg parse ?K pg = (jobs, False)"
      using ns by (cases "scrape_page cfg parse ?K pg") auto
    show ?thesis
    proof (cases "load_page site (1 + 1)")
      case None
      have "scrape_loop cfg parse ?K site 2 1 pg [] ?E =
            \<lparr>returned = [] @ jobs, events = ?E @ [ScrapePage 1, Delay, LoadPage (1 + 1) False],
             should_stop = False\<rparr>"
        using sp None by (intro loop_fail) simp_all
      then show ?thesis unfolding run T by simp
    next
      case (Some pg2)
      let ?E2 = "?E @ [ScrapePage 1, Delay, LoadPage (1 + 1) True]"
      have step: "scrape_loop cfg parse ?K site 2 1 pg [] ?E =
                  scrape_loop cfg parse ?K site 2 (1 + 1) pg2 ([] @ jobs) ?E2"
        using sp Some by (intro loop_next) simp_all
      have "events (scrape_loop cfg parse ?K site 2 (1 + 1) pg2 ([] @ jobs) ?E2)
              = ?E2 @ [ScrapePage (1 + 1)]"
        by (cases cfg parse ?K site "2::int" "1 + 1::int" pg2 "[] @ jobs" ?E2 rule: loop_cases)
           simp_all
      then show ?thesis unfolding run T step by simp
    qed
  qed
  from len some none tot pre two show ?thesis by blast
qed

text \<open>
  An example for C6: five pages that all load, a total of 2 read on page 1, a limit of 5
  and no known keys. The pages loaded are 1 and 2.
\<close>

theorem pages_fetched_bounded_witness:
  "pages_fetched (events (scrape_run ascii_text (example_cfg True) example_parse
      (example_site (replicate 5 (example_page [''1'', ''2''] [''J1|A'', ''J2|B'', ''J3|C''])))
      None (Some 5))) = [1, 2]"
  using pages_fetched_bounded[of
      "example_site (replicate 5 (example_page [''1'', ''2''] [''J1|A'', ''J2|B'', ''J3|C'']))"
      "example_page [''1'', ''2''] [''J1|A'', ''J2|B'', ''J3|C'']"
      ascii_text "example_cfg True" example_parse None "Some 5"]
  by (simp add: eval_defs scrape_page_def)

text \<open>
  C6 as first stated, with the minimum of the total and \<^verbatim>\<open>max_pages\<close> as the bound for
  every run, fails for a limit of 0: with a total of 3 the run loads 3 pages, and the
  minimum of 3 and 0 is 0.
\<close>

theorem pages_fetched_unbounded_by_zero_limit:
  "\<not> int (length (pages_fetched (events (scrape_run ascii_text (example_cfg False) example_parse
         (example_site (replicate 3 (example_page [''1'', ''2'', ''3''] [])))
         None (Some 0)))))
     \<le> min (get_total_pages ascii_text (example_page [''1'', ''2'', ''3''] [])) 0"
  by (simp add: scrape_run_def scrape_loop.simps scrape_page_def load_page_def eval_defs)

section \<open>The flag that stops a run\<close>

lemma loop_flag:
  assumes "site page = Loaded pg" "evs \<noteq> []" "\<forall>p. last evs \<noteq> ScrapePage p"
  shows "should_stop (scrape_loop cfg parse K site T page pg acc evs) \<longleftrightarrow>
         (\<exists>p pg'. last (events (scrape_loop cfg parse K site T page pg acc evs)) = ScrapePage p
                  \<and> site p = Loaded pg' \<and> snd (scrape_page cfg parse K pg'))"
  using assms
proof (induction "nat (T + 1 - page)" arbitrary: page pg acc evs)
  case 0
  then show ?case by (simp add: loop_done)
next
  case (Suc n)
  show ?case
  proof (cases cfg parse K site T page pg acc evs rule: loop_cases)
    case over
    then show ?thesis using Suc.prems by simp
  next
    case (known jobs)
    then show ?thesis using Suc.prems(1) by simp
  next
    case (final jobs)
    then show ?thesis using Suc.prems(1) by simp
  next
    case (failed jobs)
    then show ?thesis by simp
  next
    case (onward jobs pg')
    let ?evs = "evs @ [ScrapePage page, Delay, LoadPage (page + 1) True]"
    have n: "n = nat (T + 1 - (page + 1))" using Suc.hyps(2) by linarith
    have ld: "site (page + 1) = Loaded pg'" using onward(4) by (simp add: load_page_Some)
    have "should_stop (scrape_loop cfg parse K site T (page + 1) pg' (acc @ jobs) ?evs) \<longleftrightarrow>
          (\<exists>p pg''. last (events (scrape_loop cfg parse K site T (page + 1) pg' (acc @ jobs) ?evs))
                       = ScrapePage p
                   \<and> site p = Loaded pg'' \<and> snd (scrape_page cfg parse K pg''))"
      by (rule Suc.hyps(1)[OF n ld]) simp_all
    then show ?thesis unfolding onward(5) .
  qed
qed

text \<open>
  C2 (amended). \<^verbatim>\<open>scrape\<close> returns the list of records and nothing else. The flag
  is the second component of what \<^verbatim>\<open>scrape_page\<close> returns for one page: true exactly
  when stopping at known jobs is on and a usable record of that page has a known key. In
  \<^verbatim>\<open>scrape\<close> it is a local variable that ends the loop: when the run ends it is true
  exactly when the last thing the run did was to scrape a page for which \<^verbatim>\<open>scrape_page\<close>
  returned a true flag, so it is false when the run ends on a load that failed and when
  it ends after the last page.
\<close>

theorem stop_flag_is_local_to_scrape:
  "scrape py cfg parse site existing max_pages =
     returned (scrape_run py cfg parse site existing max_pages)
   \<and> (snd (scrape_page cfg parse K pg) \<longleftrightarrow>
        STOP_ON_KNOWN_JOB cfg \<and>
        (\<exists>j\<in>set (usable_jobs parse (get_job_elements pg)). job_key j \<in> K))
   \<and> (should_stop (scrape_run py cfg parse site existing max_pages) \<longleftrightarrow>
        (\<exists>p pg'. last (events (scrape_run py cfg parse site existing max_pages)) = ScrapePage p
                 \<and> site p = Loaded pg'
                 \<and> snd (scrape_page cfg parse (default_ids existing) pg')))
   \<and> ((\<exists>k. last (events (scrape_run py cfg parse site existing max_pages)) = LoadPage k False)
        \<longrightarrow> \<not> should_stop (scrape_run py cfg parse site existing max_pages))"
proof -
  let ?r = "scrape_run py cfg parse site existing max_pages"
  have page: "snd (scrape_page cfg parse K pg) \<longleftrightarrow>
        STOP_ON_KNOWN_JOB cfg \<and>
        (\<exists>j\<in>set (usable_jobs parse (get_job_elements pg)). job_key j \<in> K)"
    by (cases "STOP_ON_KNOWN_JOB cfg") (simp_all add: scrape_page_stop_on scrape_page_stop_off)
  have flag: "should_stop ?r \<longleftrightarrow>
        (\<exists>p pg'. last (events ?r) = ScrapePage p \<and> site p = Loaded pg'
                 \<and> snd (scrape_page cfg parse (default_ids existing) pg'))"
  proof (cases "load_page site 1")
    case None
    then show ?thesis by (simp add: scrape_run_def)
  next
    case (Some pg1)
    then have one: "site 1 = Loaded pg1" by (simp add: load_page_Some)
    show ?thesis
      unfolding run_loaded[of site pg1, OF one]
      by (rule loop_flag[of site 1 pg1, OF one]) simp_all
  qed
  have abort: "\<not> should_stop ?r" if "\<exists>k. last (events ?r) = LoadPage k False"
    using that flag by auto
  have list: "scrape py cfg parse site existing max_pages = returned ?r"
    by (simp add: scrape_def)
  from list page flag abort show ?thesis by blast
qed

text \<open>
  Examples for C2: a run that stops at a known job ends with a true flag, a run whose
  first page fails to load with a false one.
\<close>

theorem stop_flag_is_local_to_scrape_witness:
  "should_stop (scrape_run ascii_text (example_cfg True) example_parse
     (example_site [example_page [] [''J2|Beta'', ''J1|Acme'']]) (Some {''J1|Acme''}) None)
   \<and> \<not> should_stop (scrape_run ascii_text (example_cfg True) example_parse
     (\<lambda>q. FetchError) (Some {''J1|Acme''}) None)"
  using stop_flag_is_local_to_scrape[of ascii_text "example_cfg True" example_parse
      "example_site [example_page [] [''J2|Beta'', ''J1|Acme'']]" "Some {''J1|Acme''}" None
      "{''J1|Acme''}" "example_page [] [''J2|Beta'', ''J1|Acme'']"]
    stop_flag_is_local_to_scrape[of ascii_text "example_cfg True" example_parse
      "\<lambda>q. FetchError" "Some {''J1|Acme''}" None
      "{''J1|Acme''}" "example_page [] [''J2|Beta'', ''J1|Acme'']"]
  by (simp add: scrape_run_def scrape_loop.simps scrape_page_def load_page_def eval_defs)

text \<open>
  C2 as first stated, with the flag as part of the returned value, fails: a run that
  stops at a known job and a run that ends after its last page return the same value.
\<close>

theorem returned_list_does_not_tell_early_stop:
  "scrape ascii_text (example_cfg True) example_parse
     (example_site [example_page [] [''J2|Beta'', ''J1|Acme'']]) (Some {''J1|Acme''}) None
   = scrape ascii_text (example_cfg True) example_parse
     (example_site [example_page [] [''J2|Beta'']]) (Some {''J1|Acme''}) None
   \<and> should_stop (scrape_run ascii_text (example_cfg True) example_parse
     (example_site [example_page [] [''J2|Beta'', ''J1|Acme'']]) (Some {''J1|Acme''}) None)
   \<and> \<not> should_stop (scrape_run ascii_text (example_cfg True) example_parse
     (example_site [example_page [] [''J2|Beta'']]) (Some {''J1|Acme''}) None)"
  by (simp add: scrape_def scrape_run_def scrape_loop.simps scrape_page_def load_page_def eval_defs)

section \<open>The notifier\<close>

text \<open>
  C9. For an empty list \<^verbatim>\<open>send_new_jobs\<close> returns true and posts no request. For a
  list that is not empty and a webhook URL that is absent or empty it returns false, and
  posts no request either.
\<close>

theorem send_new_jobs_empty_or_unconfigured:
  "send_new_jobs cfg nt post [] total_scraped = (True, [])
   \<and> (new_jobs \<noteq> [] \<and> (webhook_url nt = None \<or> webhook_url nt = Some []) \<longrightarrow>
        send_new_jobs cfg nt post new_jobs total_scraped = (False, []))"
proof -
  have empty: "send_new_jobs cfg nt post [] total_scraped = (True, [])"
    by (simp add: send_new_jobs_def)
  have "send_new_jobs cfg nt post new_jobs total_scraped = (False, [])"
    if "new_jobs \<noteq> []" "webhook_url nt = None \<or> webhook_url nt = Some []"
  proof -
    have "\<not> truthy (webhook_url nt)" using that(2) by (auto simp: truthy_def)
    with that(1) show ?thesis by (simp add: send_new_jobs_def)
  qed
  with empty show ?thesis by blast
qed

text \<open>
  Examples for C9: one job and no webhook URL; no job and a webhook URL.
\<close>

theorem send_new_jobs_empty_or_unconfigured_witness:
  "send_new_jobs (example_cfg True) \<lparr>webhook_url = None, translator = None\<rparr>
     (\<lambda>u p. Status 200) [example_job ''J1'' ''Acme''] None = (False, [])
   \<and> send_new_jobs (example_cfg True) \<lparr>webhook_url = Some ''https://hooks.slack.com/x'', translator = None\<rparr>
     (\<lambda>u p. Status 200) [] None = (True, [])"
  using send_new_jobs_empty_or_unconfigured[of "example_cfg True"
      "\<lparr>webhook_url = None, translator = None\<rparr>" "\<lambda>u p. Status 200" None
      "[example_job ''J1'' ''Acme'']"]
    send_new_jobs_empty_or_unconfigured[of "example_cfg True"
      "\<lparr>webhook_url = Some ''https://hooks.slack.com/x'', translator = None\<rparr>"
      "\<lambda>u p. Status 200" None "[]"]
  by simp

lemma job_blocks_loop_append:
  "job_blocks_loop cfg nt n i jobs blocks = blocks @ job_blocks_loop cfg nt n i jobs []"
proof (induction jobs arbitrary: i blocks)
  case Nil
  show ?case by simp
next
  case (Cons j jobs)
  show ?case
    using Cons[of "Suc i" "blocks @ [format_job_block cfg nt j i]"]
      Cons[of "Suc i" "blocks @ [format_job_block cfg nt j i, divider]"]
      Cons[of "Suc i" "[format_job_block cfg nt j i]"]
      Cons[of "Suc i" "[format_job_block cfg nt j i, divider]"]
    by (simp add: Let_def)
qed

lemma newline_in_join_lines: "CHR 0x0A \<in> set (join_lines (a # b # rest))"
  by simp

lemma format_job_block_has_newline:
  "\<exists>t. format_job_block cfg nt j i = Section t \<and> CHR 0x0A \<in> set t"
  by (simp add: format_job_block_def Let_def)

lemma divider_has_no_newline: "divider = Section t \<Longrightarrow> CHR 0x0A \<notin> set t"
  by (auto simp: divider_def box_line_def)

lemma format_job_block_not_divider: "format_job_block cfg nt j i \<noteq> divider"
  using format_job_block_has_newline[of cfg nt j i] divider_has_no_newline by metis

lemma filter_job_blocks_loop:
  "filter (\<lambda>b. b \<noteq> divider) (job_blocks_loop cfg nt n i jobs []) =
   map (\<lambda>(k, j). format_job_block cfg nt j k) (enumerate i jobs)"
proof (induction jobs arbitrary: i)
  case Nil
  show ?case by simp
next
  case (Cons j jobs)
  have "job_blocks_loop cfg nt n i (j # jobs) [] =
        (format_job_block cfg nt j i # (if i < n then [divider] else []))
        @ job_blocks_loop cfg nt n (Suc i) jobs []"
    using job_blocks_loop_append[of cfg nt n "Suc i" jobs "[format_job_block cfg nt j i, divider]"]
      job_blocks_loop_append[of cfg nt n "Suc i" jobs "[format_job_block cfg nt j i]"]
    by (simp add: Let_def)
  then show ?case
    using Cons[of "Suc i"] by (simp add: format_job_block_not_divider)
qed

lemma send_message_requests:
  assumes "blocks \<noteq> []"
  shows "\<forall>request\<in>set (snd (send_message nt post txt (Some blocks))).
           payload_blocks (snd request) = Some blocks"
proof (cases "truthy (webhook_url nt) \<and> startswith (the (webhook_url nt)) ''https://hooks.slack.com''")
  case False
  then have "snd (send_message nt post txt (Some blocks)) = []"
    unfolding send_message_def by (simp only: if_not_P if_P de_Morgan_conj snd_conv split: if_splits) auto
  then show ?thesis by simp
next
  case True
  define pl where "pl = \<lparr>payload_text = txt, payload_blocks = Some blocks\<rparr>"
  have "snd (send_message nt post txt (Some blocks)) = [(the (webhook_url nt), pl)]"
    using True assms unfolding send_message_def pl_def Let_def
    by (cases "post (the (webhook_url nt)) \<lparr>payload_text = txt, payload_blocks = Some blocks\<rparr>")
       simp_all
  then show ?thesis by (simp add: pl_def)
qed

lemma digit_char:
  "d < 10 \<Longrightarrow> char_of (48 + d) \<in> set ''0123456789'' \<and> of_char (char_of (48 + d)) - 48 = d"
  for d :: nat
proof -
  assume "d < 10"
  then have "d \<in> {0, 1, 2, 3, 4, 5, 6, 7, 8, 9}" by auto
  then show ?thesis by (auto simp: char_of_def bit_0)
qed

lemma reads_as_str_nat: "reads_as (str_nat n) n"
proof (induction n rule: str_nat.induct)
  case (1 n)
  show ?case
  proof (cases "n < 10")
    case True
    then show ?thesis
      using digit_char[of n] by (subst str_nat.simps) (simp add: reads_as_def)
  next
    case False
    have IH: "reads_as (str_nat (n div 10)) (n div 10)" using "1.IH" False by simp
    show ?thesis
      using False IH digit_char[of "n mod 10"]
      by (subst str_nat.simps) (simp add: reads_as_def)
  qed
qed

text \<open>
  C10. The blocks of the message are three heading blocks, then the job blocks with
  dividers between them, then the note when there are more than 10 jobs, then the
  footer. Without the dividers the job blocks are \<^verbatim>\<open>format_job_block\<close> of the first
  10 jobs, in input order and numbered from 1, so there are at most 10 of them. The
  note, present exactly when the list has more than 10 jobs, says
  \<^verbatim>\<open>*... and N more new jobs!* Check the database for full list.\<close> with, for \<^verbatim>\<open>N\<close>,
  the decimal numeral of the length of the list minus 10. Every request
  \<^verbatim>\<open>send_new_jobs\<close> posts carries these blocks.
\<close>

theorem at_most_ten_job_blocks:
  "\<exists>heading body footer.
     message_blocks cfg nt new_jobs total_scraped =
       heading @ body
       @ (if 10 < length new_jobs
          then [Section (''*... and '' @ str_nat (length new_jobs - 10)
                           @ '' more new jobs!* Check the database for full list.'')]
          else [])
       @ [footer]
     \<and> reads_as (str_nat (length new_jobs - 10)) (length new_jobs - 10)
     \<and> length heading = 3
     \<and> filter (\<lambda>b. b \<noteq> divider) body =
         map (\<lambda>(i, job_data). format_job_block cfg nt job_data i) (enumerate 1 (take 10 new_jobs))
     \<and> length (filter (\<lambda>b. b \<noteq> divider) body) = min 10 (length new_jobs)
     \<and> (\<forall>request\<in>set (snd (send_new_jobs cfg nt post new_jobs total_scraped)).
           payload_blocks (snd request) = Some (message_blocks cfg nt new_jobs total_scraped))"
proof -
  let ?n = "length (take 10 new_jobs)"
  let ?body = "job_blocks_loop cfg nt ?n 1 (take 10 new_jobs) []"
  let ?note = "if 10 < length new_jobs
               then [Section (''*... and '' @ str_nat (length new_jobs - 10)
                                @ '' more new jobs!* Check the database for full list.'')]
               else []"
  define htext where "htext = party_popper @ '' *'' @ str_nat (length new_jobs) @ '' New Job''
                   @ plural (length new_jobs) @ '' Found on Workana!*''"
  define heading where "heading =
     [Header (party_popper @ '' '' @ str_nat (length new_jobs) @ '' New Job''
                @ plural (length new_jobs) @ '' Found!''),
      Section (case total_scraped of
                 None \<Rightarrow> htext
               | Some t \<Rightarrow>
                   if t \<noteq> 0
                   then htext @ [CHR 0x0A] @ ''(Scraped '' @ str_int t @ '' jobs total)''
                   else htext),
      divider]"
  define footer where "footer = Context (''Scraped from Workana.com '' @ bullet
                                   @ '' Total new jobs: '' @ str_nat (length new_jobs))"
  have app: "job_blocks_loop cfg nt ?n 1 (take 10 new_jobs) heading = heading @ ?body"
    by (rule job_blocks_loop_append)
  have shape: "message_blocks cfg nt new_jobs total_scraped = heading @ ?body @ ?note @ [footer]"
    unfolding message_blocks_def Let_def htext_def[symmetric] heading_def[symmetric]
      footer_def[symmetric] app more_jobs_note_def
    by simp
  have count_text: "reads_as (str_nat (length new_jobs - 10)) (length new_jobs - 10)"
    by (rule reads_as_str_nat)
  have three: "length heading = 3" by (simp add: heading_def)
  have jobs: "filter (\<lambda>b. b \<noteq> divider) ?body =
      map (\<lambda>(i, job_data). format_job_block cfg nt job_data i) (enumerate 1 (take 10 new_jobs))"
    by (rule filter_job_blocks_loop)
  have count: "length (filter (\<lambda>b. b \<noteq> divider) ?body) = min 10 (length new_jobs)"
    unfolding jobs by (simp add: min.commute)
  have sent: "\<forall>request\<in>set (snd (send_new_jobs cfg nt post new_jobs total_scraped)).
      payload_blocks (snd request) = Some (message_blocks cfg nt new_jobs total_scraped)"
  proof -
    have ne: "message_blocks cfg nt new_jobs total_scraped \<noteq> []"
      unfolding shape by simp
    show ?thesis
    proof (cases "new_jobs = [] \<or> \<not> truthy (webhook_url nt)")
      case True
      then have "snd (send_new_jobs cfg nt post new_jobs total_scraped) = []"
        by (auto simp: send_new_jobs_def)
      then show ?thesis by simp
    next
      case False
      then have "send_new_jobs cfg nt post new_jobs total_scraped =
                 send_message nt post
                   (''Found '' @ str_nat (length new_jobs) @ '' new job(s) on Workana'')
                   (Some (message_blocks cfg nt new_jobs total_scraped))"
        by (simp add: send_new_jobs_def)
      then show ?thesis using send_message_requests[OF ne] by simp
    qed
  qed
  show ?thesis
    by (intro exI[of _ heading] exI[of _ ?body] exI[of _ footer] conjI)
       (rule shape count_text three jobs count sent)+
qed

text \<open>
  An example for C10: 12 jobs with the titles T1 to T12 and no translator. The message
  has the blocks of T1 to T10 in this order, dividers between them, the note for 2 more
  jobs and the footer; the one request posted carries these blocks.
\<close>

theorem at_most_ten_job_blocks_witness:
  "message_blocks (example_cfg True) example_notifier (map example_titled 
       [''T1'', ''T2'', ''T3'', ''T4'', ''T5'', ''T6'', ''T7'', ''T8'', ''T9'', ''T10'', ''T11'', ''T12'']) None =
     [Header (party_popper @ '' 12 New Jobs Found!''),
      Section (party_popper @ '' *12 New Jobs Found on Workana!*''),
      divider]
     @ concat (map (\<lambda>t. [example_block t, divider]) 
       [''T1'', ''T2'', ''T3'', ''T4'', ''T5'', ''T6'', ''T7'', ''T8'', ''T9''])
     @ [example_block ''T10'']
     @ [Section ''*... and 2 more new jobs!* Check the database for full list.'']
     @ [Context (''Scraped from Workana.com '' @ bullet @ '' Total new jobs: 12'')]
   \<and> map (\<lambda>request. payload_blocks (snd request))
         (snd (send_new_jobs (example_cfg True) example_notifier (\<lambda>u p. Status 200)
                (map example_titled 
       [''T1'', ''T2'', ''T3'', ''T4'', ''T5'', ''T6'', ''T7'', ''T8'', ''T9'', ''T10'', ''T11'', ''T12'']) None))
       = [Some (message_blocks (example_cfg True) example_notifier
                  (map example_titled 
       [''T1'', ''T2'', ''T3'', ''T4'', ''T5'', ''T6'', ''T7'', ''T8'', ''T9'', ''T10'', ''T11'', ''T12'']) None)]"
proof -
  let ?jobs = "map example_titled 
       [''T1'', ''T2'', ''T3'', ''T4'', ''T5'', ''T6'', ''T7'', ''T8'', ''T9'', ''T10'', ''T11'', ''T12'']"
  have message: "message_blocks (example_cfg True) example_notifier ?jobs None =
     [Header (party_popper @ '' 12 New Jobs Found!''),
      Section (party_popper @ '' *12 New Jobs Found on Workana!*''),
      divider]
     @ concat (map (\<lambda>t. [example_block t, divider]) 
       [''T1'', ''T2'', ''T3'', ''T4'', ''T5'', ''T6'', ''T7'', ''T8'', ''T9''])
     @ [example_block ''T10'']
     @ [Section ''*... and 2 more new jobs!* Check the database for full list.'']
     @ [Context (''Scraped from Workana.com '' @ bullet @ '' Total new jobs: 12'')]"
    by (simp add: message_blocks_def format_job_block_def translated_title_def
          example_notifier_def example_titled_def example_job_def example_block_def
          more_jobs_note_def plural_def fmt_opt_def truthy_def Let_def
          str_nat.simps char_of_def bit_0)
  from at_most_ten_job_blocks[of "example_cfg True" example_notifier ?jobs None
      "\<lambda>u p. Status 200"]
  have sent: "\<forall>request\<in>set (snd (send_new_jobs (example_cfg True) example_notifier
                  (\<lambda>u p. Status 200) ?jobs None)).
          payload_blocks (snd request) =
            Some (message_blocks (example_cfg True) example_notifier ?jobs None)"
    by blast
  have "\<exists>request. snd (send_new_jobs (example_cfg True) example_notifier
                  (\<lambda>u p. Status 200) ?jobs None) = [request]"
    by (simp add: send_new_jobs_def send_message_def example_notifier_def truthy_def
          startswith_def Let_def)
  then obtain request where r: "snd (send_new_jobs (example_cfg True) example_notifier
                  (\<lambda>u p. Status 200) ?jobs None) = [request]" by blast
  have carried: "map (\<lambda>request. payload_blocks (snd request))
         (snd (send_new_jobs (example_cfg True) example_notifier (\<lambda>u p. Status 200) ?jobs None))
       = [Some (message_blocks (example_cfg True) example_notifier ?jobs None)]"
    using sent unfolding r by simp
  show ?thesis by (rule conjI[OF message carried])
qed

end
